theory Spec2Isabelle
  imports Main "HOL-Library.Sublist"
begin

section \<open>Paths and the constants of config.py\<close>

text \<open>
  A path is the list of its components below the root: \<open>/home/arma\<close> is
  \<open>[''home'', ''arma'']\<close>. The source builds paths with f-strings and
  \<open>os.path.join\<close>; both append one component, so a mod name, a mod id and a directory
  entry are each one component (none contains a slash, as for workshop ids and for the
  names a directory listing returns).
\<close>

type_synonym path = "string list"

definition A3_SERVER_DIR :: path where
  "A3_SERVER_DIR = [''home'', ''arma'', ''steamcmd'', ''arma3'']"

definition A3_WORKSHOP_ID :: string where
  "A3_WORKSHOP_ID = ''107410''"

definition A3_WORKSHOP_DIR :: path where
  "A3_WORKSHOP_DIR = A3_SERVER_DIR @ [''steamapps'', ''workshop'', ''content'', A3_WORKSHOP_ID]"

definition A3_MODS_DIR :: path where
  "A3_MODS_DIR = A3_SERVER_DIR"

definition A3_MOD_KEYS_SOURCE_DIRECTORY :: path where
  "A3_MOD_KEYS_SOURCE_DIRECTORY =
     A3_SERVER_DIR @ [''steamapps'', ''workshop'', ''content'', A3_WORKSHOP_ID]"

definition A3_MOD_KEYS_DESTINATION_DIRECTORY :: path where
  "A3_MOD_KEYS_DESTINATION_DIRECTORY = A3_SERVER_DIR @ [''keys'']"

definition WORKSHOP_CHANGELOG_URL :: string where
  "WORKSHOP_CHANGELOG_URL = ''https://steamcommunity.com/sharedfiles/filedetails/changelog''"

section \<open>Exceptions\<close>

datatype error =
    ValueError
  | OverflowError
  | OSError
  | FileExistsError
  | FileNotFoundError
  | IsADirectoryError
  | SameFileError
  | URLError

section \<open>The file system\<close>

text \<open>
  The disk is an association list from paths to nodes; its order is the order in which a
  directory listing returns the entries. A directory carries its creation time as the
  datetime that \<open>datetime.fromtimestamp(os.path.getctime(path))\<close> reads, in microseconds
  (datetime's resolution, taken in UTC). A file carries its bytes, a symbolic link its
  target. The model never follows a link: a link is an entry that is neither a file nor a
  directory.
\<close>

datatype node = File string | Dir int | Symlink path

type_synonym filesystem = "(path \<times> node) list"

fun is_Dir :: "node \<Rightarrow> bool" where
  "is_Dir (Dir t) = True"
| "is_Dir (File c) = False"
| "is_Dir (Symlink p) = False"

definition isdir :: "filesystem \<Rightarrow> path \<Rightarrow> bool" where
  "isdir d p = (case map_of d p of Some n \<Rightarrow> is_Dir n | None \<Rightarrow> False)"

definition islink :: "filesystem \<Rightarrow> path \<Rightarrow> bool" where
  "islink d p = (case map_of d p of Some (Symlink t) \<Rightarrow> True | _ \<Rightarrow> False)"

definition getctime :: "filesystem \<Rightarrow> path \<Rightarrow> error + int" where
  "getctime d p = (case map_of d p of Some (Dir t) \<Rightarrow> Inr t | _ \<Rightarrow> Inl OSError)"

text \<open>\<open>shutil.rmtree\<close>: the directory and everything below it goes.\<close>

definition rmtree :: "filesystem \<Rightarrow> path \<Rightarrow> filesystem" where
  "rmtree d p = filter (\<lambda>(k, n). \<not> prefix p k) d"

text \<open>\<open>os.scandir\<close>: the entries of a directory, by name.\<close>

definition scandir :: "filesystem \<Rightarrow> path \<Rightarrow> (string \<times> node) list" where
  "scandir d topdir = map (\<lambda>(k, n). (last k, n)) (filter (\<lambda>(k, n). k \<noteq> [] \<and> butlast k = topdir) d)"

text \<open>
  What \<open>os.walk\<close> makes of a listing: \<open>dirs\<close>, the names of the entries that are
  directories, and \<open>nondirs\<close>, the names of the others.
\<close>

definition listdirs :: "filesystem \<Rightarrow> path \<Rightarrow> string list" where
  "listdirs d topdir = map fst (filter (\<lambda>(name, nd). is_Dir nd) (scandir d topdir))"

definition listfiles :: "filesystem \<Rightarrow> path \<Rightarrow> string list" where
  "listfiles d topdir = map fst (filter (\<lambda>(name, nd). \<not> is_Dir nd) (scandir d topdir))"

text \<open>
  \<open>os.rename\<close> on a POSIX system; \<open>None\<close> is an OSError. The source must exist and
  the parent of the destination must be a directory. A file replaces an existing file or
  link; a directory replaces an existing empty directory; every other existing destination
  is refused. The entries below the source move with it.
\<close>

definition move_tree :: "path \<Rightarrow> path \<Rightarrow> filesystem \<Rightarrow> filesystem" where
  "move_tree src dst d =
     map (\<lambda>(k, n). if prefix src k then (dst @ drop (length src) k, n) else (k, n)) d"

definition os_rename :: "filesystem \<Rightarrow> path \<Rightarrow> path \<Rightarrow> filesystem option" where
  "os_rename d src dst =
     (case map_of d src of
        None \<Rightarrow> None
      | Some sn \<Rightarrow>
          if dst = [] then None
          else if isdir d (butlast dst) then
            (case map_of d dst of
               None \<Rightarrow> Some (move_tree src dst d)
             | Some dn \<Rightarrow>
                 if is_Dir sn then
                   (if is_Dir dn \<and> scandir d dst = [] then Some (move_tree src dst (rmtree d dst))
                    else None)
                 else
                   (if is_Dir dn then None else Some (move_tree src dst (rmtree d dst))))
          else None)"

text \<open>\<open>os.symlink(target, link)\<close>: refused when anything exists at the link path.\<close>

definition os_symlink :: "filesystem \<Rightarrow> path \<Rightarrow> path \<Rightarrow> error + filesystem" where
  "os_symlink d target link =
     (if map_of d link \<noteq> None then Inl FileExistsError
      else if isdir d (butlast link) then Inr (d @ [(link, Symlink target)])
      else Inl FileNotFoundError)"

text \<open>
  \<open>shutil.copy(src, dst)\<close>: the bytes of a file are written to the destination (into
  it, under the source's name, when the destination is a directory), replacing a file of
  that name. A source or a destination that is a link is refused by the model.
\<close>

fun fs_put :: "path \<Rightarrow> node \<Rightarrow> filesystem \<Rightarrow> filesystem" where
  "fs_put p n [] = [(p, n)]"
| "fs_put p n ((k, m) # d) = (if k = p then (p, n) # d else (k, m) # fs_put p n d)"

definition shutil_copy :: "filesystem \<Rightarrow> path \<Rightarrow> path \<Rightarrow> error + filesystem" where
  "shutil_copy d src dst =
     (case map_of d src of
        None \<Rightarrow> Inl FileNotFoundError
      | Some (Dir t) \<Rightarrow> Inl IsADirectoryError
      | Some (Symlink t) \<Rightarrow> Inl OSError
      | Some (File c) \<Rightarrow>
          (let target = (if isdir d dst then dst @ [last src] else dst) in
           if target = src then Inl SameFileError
           else if isdir d (butlast target) then
             (case map_of d target of
                Some (Dir t) \<Rightarrow> Inl IsADirectoryError
              | Some (Symlink t) \<Rightarrow> Inl OSError
              | _ \<Rightarrow> Inr (fs_put target (File c) d))
           else Inl FileNotFoundError))"

section \<open>Python's string functions\<close>

text \<open>\<open>str.lower\<close> and \<open>str.endswith\<close>, on ASCII.\<close>

definition lower_char :: "char \<Rightarrow> char" where
  "lower_char c =
     (if 65 \<le> (of_char c :: nat) \<and> (of_char c :: nat) \<le> 90 then char_of ((of_char c :: nat) + 32)
      else c)"

definition lower :: "string \<Rightarrow> string" where
  "lower s = map lower_char s"

definition lower_path :: "path \<Rightarrow> path" where
  "lower_path p = map lower p"

definition endswith :: "string \<Rightarrow> string \<Rightarrow> bool" where
  "endswith s suf = (length suf \<le> length s \<and> drop (length s - length suf) s = suf)"

definition is_digit :: "char \<Rightarrow> bool" where
  "is_digit c = (48 \<le> (of_char c :: nat) \<and> (of_char c :: nat) \<le> 57)"

definition is_space :: "char \<Rightarrow> bool" where
  "is_space c = ((of_char c :: nat) \<in> {9, 10, 11, 12, 13, 32})"

text \<open>
  \<open>int(s)\<close> for a string: white space around, an optional sign, decimal digits with
  single underscores between them, at most 4300 digits; anything else raises ValueError
  (\<open>None\<close>). \<open>int_digits acc after_digit s\<close> reads the digits: \<open>after_digit\<close> says
  that the character before was a digit.
\<close>

fun int_digits :: "int \<Rightarrow> bool \<Rightarrow> string \<Rightarrow> int option" where
  "int_digits acc after_digit [] = (if after_digit then Some acc else None)"
| "int_digits acc after_digit (c # cs) =
     (if is_digit c then int_digits (10 * acc + (int (of_char c) - 48)) True cs
      else if c = CHR ''_'' \<and> after_digit then int_digits acc False cs
      else None)"

definition strip :: "string \<Rightarrow> string" where
  "strip s = rev (dropWhile is_space (rev (dropWhile is_space s)))"

definition py_int :: "string \<Rightarrow> int option" where
  "py_int s =
     (let t = strip s in
      if 4300 < length (filter is_digit t) then None
      else case t of
          [] \<Rightarrow> None
        | c # r \<Rightarrow>
            if c = CHR ''-'' then map_option uminus (int_digits 0 False r)
            else if c = CHR ''+'' then int_digits 0 False r
            else int_digits 0 False t)"

text \<open>
  \<open>PATTERN = re.compile(r"workshopAnnouncement.*?<p id=\"(\d+)\">", re.DOTALL)\<close>
  and \<open>PATTERN.search\<close>, returning group 1. The lazy \<open>.*?\<close> stops at the first
  position after the leftmost \<open>workshopAnnouncement\<close> where \<open><p id="\<close>, a maximal
  run of digits and \<open>">\<close> follow.
\<close>

fun after_literal :: "string \<Rightarrow> string \<Rightarrow> string option" where
  "after_literal lit [] = (if lit = [] then Some [] else None)"
| "after_literal lit (c # cs) =
     (if prefix lit (c # cs) then Some (drop (length lit) (c # cs))
      else after_literal lit cs)"

fun first_marker :: "string \<Rightarrow> string option" where
  "first_marker [] = None"
| "first_marker (c # cs) =
     (if prefix ''<p id=\"'' (c # cs) then
        (let r = drop 7 (c # cs); g = takeWhile is_digit r in
         if g \<noteq> [] \<and> prefix ''\">'' (dropWhile is_digit r) then Some g
         else first_marker cs)
      else first_marker cs)"

definition PATTERN_search :: "string \<Rightarrow> string option" where
  "PATTERN_search response =
     (case after_literal ''workshopAnnouncement'' response of
        None \<Rightarrow> None
      | Some rest \<Rightarrow> first_marker rest)"

text \<open>
  \<open>datetime.fromtimestamp(n)\<close> for an integer number of seconds: the datetime in
  microseconds; past the year 9999 it raises.
\<close>

definition fromtimestamp :: "int \<Rightarrow> error + int" where
  "fromtimestamp n = (if n \<le> 253402300799 then Inr (n * 1000000) else Inl ValueError)"

section \<open>The world: disk, the external tool's state, and what was logged and called\<close>

datatype update_type = SERVER | MOD

datatype event =
    Log_Updating string string nat
  | Log_Failed string nat
  | Print_Skipping string string
  | Urlopen string
  | SteamCmd_run update_type "int option"
  | Sleep nat
  | Shutil_rmtree path
  | Log_All_updated
  | Print_blank
  | Log_Converting
  | Os_rename path path
  | Print_Renamed string path
  | Print_Rename_error string
  | Log_Creating_symlinks
  | Print_Mod_missing string path
  | Os_symlink path path
  | Print_Creating_symlink path
  | Log_Start_copy
  | Print_Copy string
  | Shutil_copy path path
  | Print_No_keys
  | Print_Keys_copied

record 'x world =
  disk :: filesystem
  ext :: 'x
  trace :: "event list"

text \<open>
  The collaborators that are not in the repository's sources: the remote changelog
  (\<open>request.urlopen(url).read().decode("utf-8")\<close>, which can raise) and
  \<open>SteamCmd.run\<close>, an arbitrary command on the disk with a state of its own.
\<close>

record 'x env =
  urlopen :: "string \<Rightarrow> error + string"
  steamcmd_run :: "update_type \<Rightarrow> int option \<Rightarrow> 'x \<Rightarrow> filesystem \<Rightarrow> 'x \<times> filesystem"

definition emit :: "event list \<Rightarrow> 'x world \<Rightarrow> 'x world" where
  "emit es w = w\<lparr>trace := trace w @ es\<rparr>"

section \<open>ServerUpdater: the reconciliation pass\<close>

definition mod_needs_update ::
  "'x env \<Rightarrow> string \<Rightarrow> path \<Rightarrow> 'x world \<Rightarrow> error + (bool \<times> 'x world)" where
  "mod_needs_update env mod_id path w =
     (if \<not> isdir (disk w) path then Inr (False, w)
      else
        let w1 = emit [Urlopen (WORKSHOP_CHANGELOG_URL @ ''/'' @ mod_id)] w in
        case urlopen env (WORKSHOP_CHANGELOG_URL @ ''/'' @ mod_id) of
          Inl e \<Rightarrow> Inl e
        | Inr response \<Rightarrow>
            (case PATTERN_search response of
               None \<Rightarrow> Inr (False, w1)
             | Some g \<Rightarrow>
                 (case py_int g of
                    None \<Rightarrow> Inl ValueError
                  | Some n \<Rightarrow>
                      (case fromtimestamp n of
                         Inl e \<Rightarrow> Inl e
                       | Inr updated_at \<Rightarrow>
                           (case getctime (disk w1) path of
                              Inl e \<Rightarrow> Inl e
                            | Inr created_at \<Rightarrow> Inr (updated_at \<ge> created_at, w1))))))"

definition delete_mod_if_needed ::
  "'x env \<Rightarrow> string \<Rightarrow> path \<Rightarrow> 'x world \<Rightarrow> error + ((bool \<times> bool) \<times> 'x world)" where
  "delete_mod_if_needed env mod_id mod_path w =
     (let is_dir = isdir (disk w) mod_path in
      case mod_needs_update env mod_id mod_path w of
        Inl e \<Rightarrow> Inl e
      | Inr (mod_needs_update_unused, w1) \<Rightarrow>
          if \<not> is_dir then Inr ((False, False), w1)
          else
            (case mod_needs_update env mod_id mod_path w1 of
               Inl e \<Rightarrow> Inl e
             | Inr (needs, w2) \<Rightarrow>
                 if \<not> needs then Inr ((True, False), w2)
                 else Inr ((True, True),
                        emit [Shutil_rmtree mod_path] (w2\<lparr>disk := rmtree (disk w2) mod_path\<rparr>))))"

text \<open>
  The loop of \<open>_try_to_update_mod\<close>: \<open>while not is_dir and tries < 10\<close>. The
  parameter \<open>is_dir\<close> is not assigned in the body.
\<close>

function try_to_update_mod_loop ::
  "'x env \<Rightarrow> string \<Rightarrow> string \<Rightarrow> bool \<Rightarrow> nat \<Rightarrow> 'x world \<Rightarrow> error + (nat \<times> 'x world)" where
  "try_to_update_mod_loop env mod_id mod_name is_dir tries w =
     (if \<not> is_dir \<and> tries < 10 then
        (let w1 = emit [Log_Updating mod_name mod_id (tries + 1)] w in
         case py_int mod_id of
           None \<Rightarrow> Inl ValueError
         | Some n \<Rightarrow>
             (let (x', d') = steamcmd_run env MOD (Some n) (ext w1) (disk w1);
                  w2 = emit [SteamCmd_run MOD (Some n), Sleep 5] (w1\<lparr>disk := d', ext := x'\<rparr>)
              in try_to_update_mod_loop env mod_id mod_name is_dir (tries + 1) w2))
      else Inr (tries, w))"
  by pat_completeness auto
termination
  by (relation "measure (\<lambda>(env, mod_id, mod_name, is_dir, tries, w). 10 - tries)") auto

definition try_to_update_mod ::
  "'x env \<Rightarrow> string \<Rightarrow> string \<Rightarrow> bool \<Rightarrow> 'x world \<Rightarrow> error + (bool \<times> 'x world)" where
  "try_to_update_mod env mod_id mod_name is_dir w =
     (let max_tries = 10 in
      case try_to_update_mod_loop env mod_id mod_name is_dir 0 w of
        Inl e \<Rightarrow> Inl e
      | Inr (tries, w') \<Rightarrow>
          if tries \<ge> max_tries then Inr (False, emit [Log_Failed mod_name tries] w')
          else Inr (True, w'))"

text \<open>A Python dict as an association list in insertion order; \<open>d[k] = v\<close>.\<close>

fun dict_set :: "'k \<Rightarrow> 'v \<Rightarrow> ('k \<times> 'v) list \<Rightarrow> ('k \<times> 'v) list" where
  "dict_set k v [] = [(k, v)]"
| "dict_set k v ((k', v') # kvs) =
     (if k' = k then (k, v) # kvs else (k', v') # dict_set k v kvs)"

fun update_mods_loop ::
  "'x env \<Rightarrow> (string \<times> string) list \<Rightarrow> (string \<times> string) list \<Rightarrow> 'x world
     \<Rightarrow> error + ((string \<times> string) list \<times> 'x world)" where
  "update_mods_loop env [] updated_mods w = Inr (updated_mods, w)"
| "update_mods_loop env ((mod_name, mod_id) # rest) updated_mods w =
     (let mod_path = A3_WORKSHOP_DIR @ [mod_id] in
      case delete_mod_if_needed env mod_id mod_path w of
        Inl e \<Rightarrow> Inl e
      | Inr ((is_dir, needs), w1) \<Rightarrow>
          if is_dir \<and> \<not> needs then
            update_mods_loop env rest updated_mods (emit [Print_Skipping mod_name mod_id] w1)
          else
            (case try_to_update_mod env mod_id mod_name is_dir w1 of
               Inl e \<Rightarrow> Inl e
             | Inr (ok, w2) \<Rightarrow>
                 if ok then update_mods_loop env rest (dict_set mod_name mod_id updated_mods) w2
                 else update_mods_loop env rest updated_mods w2))"

definition update_mods ::
  "'x env \<Rightarrow> (string \<times> string) list \<Rightarrow> 'x world
     \<Rightarrow> error + ((string \<times> string) list option \<times> 'x world)" where
  "update_mods env mods_to_update w =
     (case update_mods_loop env mods_to_update [] w of
        Inl e \<Rightarrow> Inl e
      | Inr (updated_mods, w') \<Rightarrow>
          Inr (if updated_mods \<noteq> [] then Some updated_mods else None, w'))"

section \<open>os.walk\<close>

text \<open>
  \<open>os.walk(top)\<close>, top-down, as the generator runs under a \<open>for\<close> loop: a
  directory is listed, the loop body runs on \<open>(root, dirs, files)\<close>, and only then
  is each name of \<open>dirs\<close> visited, on the disk as the body and the earlier visits left
  it. A path that cannot be listed is passed over (\<open>onerror\<close> is not set); links are
  not followed. Each level of directories costs one unit of \<open>fuel\<close>; \<open>None\<close> is
  a walk that ran out of it.
\<close>

fun os_walk ::
  "nat \<Rightarrow> ('s \<Rightarrow> filesystem) \<Rightarrow> (path \<Rightarrow> string list \<Rightarrow> string list \<Rightarrow> 's \<Rightarrow> error + 's)
     \<Rightarrow> path \<Rightarrow> 's \<Rightarrow> (error + 's) option"
and os_walk_dirs ::
  "nat \<Rightarrow> ('s \<Rightarrow> filesystem) \<Rightarrow> (path \<Rightarrow> string list \<Rightarrow> string list \<Rightarrow> 's \<Rightarrow> error + 's)
     \<Rightarrow> path \<Rightarrow> string list \<Rightarrow> 's \<Rightarrow> (error + 's) option" where
  "os_walk fuel fs_of body topdir s =
     (if \<not> isdir (fs_of s) topdir then Some (Inr s)
      else case fuel of
          0 \<Rightarrow> None
        | Suc n \<Rightarrow>
            (let dirs = listdirs (fs_of s) topdir;
                 nondirs = listfiles (fs_of s) topdir
             in case body topdir dirs nondirs s of
                  Inl e \<Rightarrow> Some (Inl e)
                | Inr s1 \<Rightarrow> os_walk_dirs n fs_of body topdir dirs s1))"
| "os_walk_dirs n fs_of body topdir [] s = Some (Inr s)"
| "os_walk_dirs n fs_of body topdir (dirname # dirs) s =
     (let new_path = topdir @ [dirname] in
      if islink (fs_of s) new_path then os_walk_dirs n fs_of body topdir dirs s
      else case os_walk n fs_of body new_path s of
          None \<Rightarrow> None
        | Some (Inl e) \<Rightarrow> Some (Inl e)
        | Some (Inr s1) \<Rightarrow> os_walk_dirs n fs_of body topdir dirs s1)"

section \<open>ServerUpdater: the stages after the pass\<close>

text \<open>One turn of \<open>for filename in files + dirs\<close> in \<open>_lower_case_mods\<close>.\<close>

definition rename_entry :: "path \<Rightarrow> string \<Rightarrow> 'x world \<Rightarrow> 'x world" where
  "rename_entry root filename w =
     (let new_name = lower_path (root @ [filename]) in
      if new_name = root @ [filename] then w
      else
        (let w1 = emit [Os_rename (root @ [filename]) new_name] w in
         case os_rename (disk w1) (root @ [filename]) new_name of
           Some d' \<Rightarrow> emit [Print_Renamed filename new_name] (w1\<lparr>disk := d'\<rparr>)
         | None \<Rightarrow> emit [Print_Rename_error filename] w1))"

definition lower_case_body ::
  "path \<Rightarrow> string list \<Rightarrow> string list \<Rightarrow> 'x world \<Rightarrow> error + 'x world" where
  "lower_case_body root dirs files w = Inr (fold (rename_entry root) (files @ dirs) w)"

fun lower_case_mods_loop :: "nat \<Rightarrow> string list \<Rightarrow> 'x world \<Rightarrow> (error + 'x world) option" where
  "lower_case_mods_loop fuel [] w = Some (Inr w)"
| "lower_case_mods_loop fuel (v # rest) w =
     (let directory_path = A3_WORKSHOP_DIR @ [v] in
      case os_walk fuel disk lower_case_body directory_path w of
        None \<Rightarrow> None
      | Some (Inl e) \<Rightarrow> Some (Inl e)
      | Some (Inr w1) \<Rightarrow> lower_case_mods_loop fuel rest w1)"

definition lower_case_mods ::
  "nat \<Rightarrow> (string \<times> string) list \<Rightarrow> 'x world \<Rightarrow> (error + 'x world) option" where
  "lower_case_mods fuel updated_mods w =
     lower_case_mods_loop fuel (map snd updated_mods) (emit [Log_Converting] w)"

fun create_mod_symlinks_loop :: "(string \<times> string) list \<Rightarrow> 'x world \<Rightarrow> error + 'x world" where
  "create_mod_symlinks_loop [] w = Inr w"
| "create_mod_symlinks_loop ((mod_name, mod_id) # rest) w =
     (let link_path = A3_MODS_DIR @ [mod_name];
          real_path = A3_WORKSHOP_DIR @ [mod_id]
      in if \<not> isdir (disk w) real_path then
           create_mod_symlinks_loop rest (emit [Print_Mod_missing mod_name real_path] w)
         else if islink (disk w) link_path then create_mod_symlinks_loop rest w
         else
           (case os_symlink (disk w) real_path link_path of
              Inl e \<Rightarrow> Inl e
            | Inr d' \<Rightarrow>
                create_mod_symlinks_loop rest
                  (emit [Os_symlink real_path link_path, Print_Creating_symlink link_path]
                     (w\<lparr>disk := d'\<rparr>))))"

definition create_mod_symlinks :: "(string \<times> string) list \<Rightarrow> 'x world \<Rightarrow> error + 'x world" where
  "create_mod_symlinks updated_mods w =
     (case create_mod_symlinks_loop updated_mods (emit [Log_Creating_symlinks] w) of
        Inl e \<Rightarrow> Inl e
      | Inr w' \<Rightarrow> Inr (emit [Print_blank] w'))"

text \<open>
  \<open>_copy_key_files\<close>: the state of the walk is the world and the local variable
  \<open>was_copied\<close>.
\<close>

fun copy_key_body_loop ::
  "path \<Rightarrow> string list \<Rightarrow> 'x world \<times> bool \<Rightarrow> error + ('x world \<times> bool)" where
  "copy_key_body_loop root_dir [] s = Inr s"
| "copy_key_body_loop root_dir (file # files) (w, was_copied) =
     (if \<not> endswith file ''.bikey'' then copy_key_body_loop root_dir files (w, was_copied)
      else
        (let source_file_path = root_dir @ [file];
             destination_file_path = A3_MOD_KEYS_DESTINATION_DIRECTORY @ [file];
             w1 = emit [Print_Copy file, Shutil_copy source_file_path destination_file_path] w
         in case shutil_copy (disk w1) source_file_path destination_file_path of
              Inl e \<Rightarrow> Inl e
            | Inr d' \<Rightarrow> copy_key_body_loop root_dir files (w1\<lparr>disk := d'\<rparr>, True)))"

definition copy_key_body ::
  "path \<Rightarrow> string list \<Rightarrow> string list \<Rightarrow> 'x world \<times> bool \<Rightarrow> error + ('x world \<times> bool)" where
  "copy_key_body root_dir dirs files s = copy_key_body_loop root_dir files s"

fun copy_key_files_loop ::
  "nat \<Rightarrow> string list \<Rightarrow> 'x world \<times> bool \<Rightarrow> (error + ('x world \<times> bool)) option" where
  "copy_key_files_loop fuel [] s = Some (Inr s)"
| "copy_key_files_loop fuel (v # rest) s =
     (let directory_path = A3_MOD_KEYS_SOURCE_DIRECTORY @ [v] in
      case os_walk fuel (\<lambda>s. disk (fst s)) copy_key_body directory_path s of
        None \<Rightarrow> None
      | Some (Inl e) \<Rightarrow> Some (Inl e)
      | Some (Inr s1) \<Rightarrow> copy_key_files_loop fuel rest s1)"

definition copy_key_files ::
  "nat \<Rightarrow> (string \<times> string) list \<Rightarrow> 'x world \<Rightarrow> (error + 'x world) option" where
  "copy_key_files fuel updated_mods w =
     (case copy_key_files_loop fuel (map snd updated_mods) (emit [Log_Start_copy] w, False) of
        None \<Rightarrow> None
      | Some (Inl e) \<Rightarrow> Some (Inl e)
      | Some (Inr (w', was_copied)) \<Rightarrow>
          if \<not> was_copied then Some (Inr (emit [Print_No_keys] w'))
          else Some (Inr (emit [Print_Keys_copied] w')))"

text \<open>\<open>_update_mods_only\<close>, from the mods that \<open>_get_mods\<close> loaded.\<close>

definition update_mods_only ::
  "nat \<Rightarrow> 'x env \<Rightarrow> (string \<times> string) list \<Rightarrow> 'x world \<Rightarrow> (error + 'x world) option" where
  "update_mods_only fuel env mods_to_update w =
     (case update_mods env mods_to_update w of
        Inl e \<Rightarrow> Some (Inl e)
      | Inr (None, w1) \<Rightarrow> Some (Inr (emit [Log_All_updated, Print_blank] w1))
      | Inr (Some updated_mods, w1) \<Rightarrow>
          (case lower_case_mods fuel updated_mods w1 of
             None \<Rightarrow> None
           | Some (Inl e) \<Rightarrow> Some (Inl e)
           | Some (Inr w2) \<Rightarrow>
               (case create_mod_symlinks updated_mods w2 of
                  Inl e \<Rightarrow> Some (Inl e)
                | Inr w3 \<Rightarrow> copy_key_files fuel updated_mods w3)))"

section \<open>Example disks and stubs\<close>

definition base_disk :: filesystem where
  "base_disk =
     map (\<lambda>p. (p, Dir 0)) (prefixes A3_WORKSHOP_DIR) @ [(A3_MOD_KEYS_DESTINATION_DIRECTORY, Dir 0)]"

definition world0 :: "filesystem \<Rightarrow> unit world" where
  "world0 d = \<lparr>disk = d, ext = (), trace = []\<rparr>"

text \<open>A remote changelog page whose latest update is at \<open>1700000000\<close> seconds.\<close>

definition page_1700000000 :: string where
  "page_1700000000 =
     ''<div class=\"workshopAnnouncement noFooter\"><p id=\"1700000000\">Update</p></div>''"

text \<open>A fetch that never produces anything, and one that creates a directory at \<open>p\<close>.\<close>

definition fetch_nothing :: "update_type \<Rightarrow> int option \<Rightarrow> unit \<Rightarrow> filesystem \<Rightarrow> unit \<times> filesystem" where
  "fetch_nothing ut mid x d = (x, d)"

definition fetch_creates ::
  "path \<Rightarrow> int \<Rightarrow> update_type \<Rightarrow> int option \<Rightarrow> unit \<Rightarrow> filesystem \<Rightarrow> unit \<times> filesystem" where
  "fetch_creates p t ut mid x d = (x, if map_of d p = None then d @ [(p, Dir t)] else d)"

definition env_of ::
  "(update_type \<Rightarrow> int option \<Rightarrow> unit \<Rightarrow> filesystem \<Rightarrow> unit \<times> filesystem) \<Rightarrow> unit env" where
  "env_of f = \<lparr>urlopen = (\<lambda>url. Inr page_1700000000), steamcmd_run = f\<rparr>"

section \<open>Notions used in the properties\<close>

text \<open>
  One turn of the retry loop with attempt number \<open>k\<close>, for the mod id that reads as
  the integer \<open>n\<close>; the number of fetches of \<open>n\<close> in a trace; the URL that
  \<open>_mod_needs_update\<close> reads; and its verdict as a function of the disk alone.
\<close>

definition attempt :: "'x env \<Rightarrow> string \<Rightarrow> string \<Rightarrow> int \<Rightarrow> nat \<Rightarrow> 'x world \<Rightarrow> 'x world" where
  "attempt env mod_name mod_id n k w =
     (let w1 = emit [Log_Updating mod_name mod_id k] w;
          r = steamcmd_run env MOD (Some n) (ext w1) (disk w1)
      in emit [SteamCmd_run MOD (Some n), Sleep 5] (w1\<lparr>disk := snd r, ext := fst r\<rparr>))"

definition fetch_count :: "int \<Rightarrow> event list \<Rightarrow> nat" where
  "fetch_count n es = count_list es (SteamCmd_run MOD (Some n))"

definition changelog_url :: "string \<Rightarrow> string" where
  "changelog_url mod_id = WORKSHOP_CHANGELOG_URL @ ''/'' @ mod_id"

definition staleness :: "'x env \<Rightarrow> filesystem \<Rightarrow> string \<Rightarrow> path \<Rightarrow> error + bool" where
  "staleness env d mod_id path =
     (case urlopen env (changelog_url mod_id) of
        Inl e \<Rightarrow> Inl e
      | Inr response \<Rightarrow>
          (case PATTERN_search response of
             None \<Rightarrow> Inr False
           | Some g \<Rightarrow>
               (case py_int g of
                  None \<Rightarrow> Inl ValueError
                | Some n \<Rightarrow>
                    (case fromtimestamp n of
                       Inl e \<Rightarrow> Inl e
                     | Inr updated_at \<Rightarrow>
                         (case getctime d path of
                            Inl e \<Rightarrow> Inl e
                          | Inr created_at \<Rightarrow> Inr (updated_at \<ge> created_at))))))"

definition disk1 :: "int \<Rightarrow> filesystem" where
  "disk1 t = base_disk @ [(A3_WORKSHOP_DIR @ [''463939057''], Dir t)]"

text \<open>The length of the longest path on the disk: fuel beyond it ends every walk.\<close>

fun depth :: "filesystem \<Rightarrow> nat" where
  "depth [] = 0"
| "depth ((k, n) # d) = max (length k) (depth d)"

definition disk_mixed :: filesystem where
  "disk_mixed = disk1 5 @
     [(A3_WORKSHOP_DIR @ [''463939057'', ''UPPER_DIR''], Dir 6),
      (A3_WORKSHOP_DIR @ [''463939057'', ''UPPER_DIR'', ''MixedCase.PBO''], File ''pbo'')]"

definition disk_lower :: filesystem where
  "disk_lower = disk1 5 @
     [(A3_WORKSHOP_DIR @ [''463939057'', ''addons''], Dir 6),
      (A3_WORKSHOP_DIR @ [''463939057'', ''addons'', ''ace.pbo''], File ''pbo'')]"

definition disk_half :: filesystem where
  "disk_half = disk1 5 @
     [(A3_WORKSHOP_DIR @ [''463939057'', ''upper_dir''], Dir 6),
      (A3_WORKSHOP_DIR @ [''463939057'', ''upper_dir'', ''MixedCase.PBO''], File ''pbo'')]"

text \<open>The number of \<open>os.symlink\<close> calls in a trace that made a link at \<open>l\<close>.\<close>

fun symlinks_made :: "path \<Rightarrow> event list \<Rightarrow> nat" where
  "symlinks_made l [] = 0"
| "symlinks_made l (Os_symlink r l' # es) = (if l' = l then Suc (symlinks_made l es) else symlinks_made l es)"
| "symlinks_made l (e # es) = symlinks_made l es"

text \<open>
  The entries at and below a path; the paths reached from \<open>topdir\<close> through
  directories only, as \<open>os.walk\<close> reaches them; the key files of a tree, which are the
  entries that are no directories, lie in the tree and have a name ending in
  \<open>.bikey\<close>; the key files of all updated mods; and the path that
  \<open>shutil.copy\<close> writes for a file name.
\<close>

definition below :: "path \<Rightarrow> filesystem \<Rightarrow> filesystem" where
  "below base d = filter (\<lambda>(k, n). prefix base k) d"

definition in_tree :: "filesystem \<Rightarrow> path \<Rightarrow> path \<Rightarrow> bool" where
  "in_tree d topdir p =
     (prefix topdir p \<and> list_all (\<lambda>i. isdir d (take i p)) [length topdir..<length p])"

definition key_files :: "filesystem \<Rightarrow> path \<Rightarrow> path list" where
  "key_files d topdir =
     map fst (filter (\<lambda>(k, n). \<not> is_Dir n \<and> length topdir < length k \<and> in_tree d topdir k
                              \<and> endswith (last k) ''.bikey'') d)"

definition all_key_files :: "filesystem \<Rightarrow> (string \<times> string) list \<Rightarrow> path list" where
  "all_key_files d updated_mods =
     concat (map (\<lambda>v. key_files d (A3_MOD_KEYS_SOURCE_DIRECTORY @ [v])) (map snd updated_mods))"

definition key_target :: "filesystem \<Rightarrow> string \<Rightarrow> path" where
  "key_target d name =
     (if isdir d (A3_MOD_KEYS_DESTINATION_DIRECTORY @ [name])
      then A3_MOD_KEYS_DESTINATION_DIRECTORY @ [name, name]
      else A3_MOD_KEYS_DESTINATION_DIRECTORY @ [name])"

text \<open>
  The state of the key propagator's walk is the world and \<open>was_copied\<close>. A key file
  \<open>k\<close> counts as copied when the trace, from position \<open>n0\<close> on, holds the
  \<open>shutil.copy\<close> call from \<open>k\<close> to its name in the destination directory. The
  invariant of the run that started on the disk \<open>d0\<close> with key files \<open>K\<close>: the
  trees of the source directory and the set of directories are as at the start,
  \<open>was_copied\<close> says whether a copy was made, without a copy the disk is untouched, and
  every copy was of a key file and left, at the path written for its name, the bytes of a
  key file of that name.
\<close>

definition copied :: "nat \<Rightarrow> 'x world \<times> bool \<Rightarrow> path \<Rightarrow> bool" where
  "copied n0 s k =
     (Shutil_copy k (A3_MOD_KEYS_DESTINATION_DIRECTORY @ [last k]) \<in> set (drop n0 (trace (fst s))))"

definition keys_inv :: "nat \<Rightarrow> filesystem \<Rightarrow> path set \<Rightarrow> 'x world \<times> bool \<Rightarrow> bool" where
  "keys_inv n0 d0 K s =
     (n0 \<le> length (trace (fst s))
      \<and> below A3_MOD_KEYS_SOURCE_DIRECTORY (disk (fst s)) = below A3_MOD_KEYS_SOURCE_DIRECTORY d0
      \<and> (\<forall>p. isdir (disk (fst s)) p = isdir d0 p)
      \<and> (snd s = (\<exists>k. copied n0 s k))
      \<and> (snd s \<or> disk (fst s) = d0)
      \<and> (\<forall>k. copied n0 s k \<longrightarrow>
            k \<in> K \<and> (\<exists>k' \<in> K. \<exists>c. last k' = last k \<and> map_of d0 k' = Some (File c)
                        \<and> map_of (disk (fst s)) (key_target d0 (last k)) = Some (File c))))"

definition disk_keys :: filesystem where
  "disk_keys = disk1 5 @
     [(A3_WORKSHOP_DIR @ [''463939057'', ''keys''], Dir 6),
      (A3_WORKSHOP_DIR @ [''463939057'', ''keys'', ''ace.bikey''], File ''KEY''),
      (A3_WORKSHOP_DIR @ [''463939057'', ''keys'', ''readme.txt''], File ''hello'')]"

section \<open>Properties of the reconciliation pass\<close>

declare try_to_update_mod_loop.simps [simp del]

lemma try_True: "try_to_update_mod env mod_id mod_name True w = Inr (True, w)"
  by (simp add: try_to_update_mod_def try_to_update_mod_loop.simps)

lemma mnu_absent: "\<not> isdir (disk w) p \<Longrightarrow> mod_needs_update env mod_id p w = Inr (False, w)"
  by (simp add: mod_needs_update_def)

lemma dmin_absent: "\<not> isdir (disk w) p \<Longrightarrow> delete_mod_if_needed env mod_id p w = Inr ((False, False), w)"
  by (simp add: delete_mod_if_needed_def mnu_absent)

lemma try_loop_False:
  "py_int mod_id = Some n \<Longrightarrow> tries \<le> 10 \<Longrightarrow>
   try_to_update_mod_loop env mod_id mod_name False tries w =
     Inr (10, fold (attempt env mod_name mod_id n) [Suc tries..<11] w)"
proof (induction "10 - tries" arbitrary: tries w)
  case 0
  then have "tries = 10" by simp
  then show ?case by (simp add: try_to_update_mod_loop.simps)
next
  case (Suc k)
  then have lt: "tries < 10" by simp
  have upt: "[Suc tries..<11] = Suc tries # [Suc (Suc tries)..<11]"
    using lt by (simp add: upt_conv_Cons)
  have step: "try_to_update_mod_loop env mod_id mod_name False tries w =
      try_to_update_mod_loop env mod_id mod_name False (Suc tries) (attempt env mod_name mod_id n (Suc tries) w)"
    using lt Suc.prems(1)
    by (subst try_to_update_mod_loop.simps) (simp add: attempt_def Let_def split: prod.splits)
  have "k = 10 - Suc tries" using Suc.hyps(2) by simp
  from Suc.hyps(1)[OF this Suc.prems(1)] lt
  have "try_to_update_mod_loop env mod_id mod_name False (Suc tries) (attempt env mod_name mod_id n (Suc tries) w)
      = Inr (10, fold (attempt env mod_name mod_id n) [Suc (Suc tries)..<11] (attempt env mod_name mod_id n (Suc tries) w))"
    by simp
  with step upt show ?case by simp
qed

lemma try_False:
  "py_int mod_id = Some n \<Longrightarrow>
   try_to_update_mod env mod_id mod_name False w =
     Inr (False, emit [Log_Failed mod_name 10] (fold (attempt env mod_name mod_id n) [1..<11] w))"
  by (simp add: try_to_update_mod_def try_loop_False)

lemma trace_attempt:
  "trace (attempt env mod_name mod_id n k w) =
     trace w @ [Log_Updating mod_name mod_id k, SteamCmd_run MOD (Some n), Sleep 5]"
  by (simp add: attempt_def emit_def Let_def)

lemma trace_attempts:
  "trace (fold (attempt env mod_name mod_id n) ks w) =
     trace w @ concat (map (\<lambda>k. [Log_Updating mod_name mod_id k, SteamCmd_run MOD (Some n), Sleep 5]) ks)"
  by (induction ks arbitrary: w) (simp_all add: trace_attempt)

lemma fetch_count_attempts:
  "fetch_count n (trace (fold (attempt env mod_name mod_id n) ks w)) = fetch_count n (trace w) + length ks"
  by (induction ks arbitrary: w) (simp_all add: trace_attempt fetch_count_def)

lemma disk_attempts_inv:
  assumes "\<And>ut m x d. P d \<Longrightarrow> P (snd (steamcmd_run env ut m x d))"
  shows "P (disk w) \<Longrightarrow> P (disk (fold (attempt env mod_name mod_id n) ks w))"
  by (induction ks arbitrary: w) (simp_all add: attempt_def emit_def Let_def assms)

lemma mnu_present:
  "isdir (disk w) p \<Longrightarrow>
   mod_needs_update env mod_id p w =
     (case staleness env (disk w) mod_id p of
        Inl e \<Rightarrow> Inl e
      | Inr b \<Rightarrow> Inr (b, emit [Urlopen (changelog_url mod_id)] w))"
  by (simp add: mod_needs_update_def staleness_def changelog_url_def emit_def Let_def
      split: sum.splits option.splits)

lemma dmin_present:
  "isdir (disk w) p \<Longrightarrow>
   delete_mod_if_needed env mod_id p w =
     (case staleness env (disk w) mod_id p of
        Inl e \<Rightarrow> Inl e
      | Inr b \<Rightarrow>
          if b then Inr ((True, True),
                 emit [Urlopen (changelog_url mod_id), Urlopen (changelog_url mod_id), Shutil_rmtree p]
                   (w\<lparr>disk := rmtree (disk w) p\<rparr>))
          else Inr ((True, False),
                 emit [Urlopen (changelog_url mod_id), Urlopen (changelog_url mod_id)] w))"
  by (simp add: delete_mod_if_needed_def mnu_present emit_def Let_def split: sum.splits)

lemma step_absent:
  "\<not> isdir (disk w) (A3_WORKSHOP_DIR @ [mod_id]) \<Longrightarrow> py_int mod_id = Some n \<Longrightarrow>
   update_mods_loop env ((mod_name, mod_id) # rest) updated_mods w =
     update_mods_loop env rest updated_mods
       (emit [Log_Failed mod_name 10] (fold (attempt env mod_name mod_id n) [1..<11] w))"
  by (simp add: dmin_absent try_False)

lemma step_fresh:
  "isdir (disk w) (A3_WORKSHOP_DIR @ [mod_id]) \<Longrightarrow>
   staleness env (disk w) mod_id (A3_WORKSHOP_DIR @ [mod_id]) = Inr False \<Longrightarrow>
   update_mods_loop env ((mod_name, mod_id) # rest) updated_mods w =
     update_mods_loop env rest updated_mods
       (emit [Urlopen (changelog_url mod_id), Urlopen (changelog_url mod_id),
              Print_Skipping mod_name mod_id] w)"
  by (simp add: dmin_present emit_def)

lemma step_stale:
  "isdir (disk w) (A3_WORKSHOP_DIR @ [mod_id]) \<Longrightarrow>
   staleness env (disk w) mod_id (A3_WORKSHOP_DIR @ [mod_id]) = Inr True \<Longrightarrow>
   update_mods_loop env ((mod_name, mod_id) # rest) updated_mods w =
     update_mods_loop env rest (dict_set mod_name mod_id updated_mods)
       (emit [Urlopen (changelog_url mod_id), Urlopen (changelog_url mod_id),
              Shutil_rmtree (A3_WORKSHOP_DIR @ [mod_id])]
          (w\<lparr>disk := rmtree (disk w) (A3_WORKSHOP_DIR @ [mod_id])\<rparr>))"
  by (simp add: dmin_present try_True)

lemma step_error:
  "isdir (disk w) (A3_WORKSHOP_DIR @ [mod_id]) \<Longrightarrow>
   staleness env (disk w) mod_id (A3_WORKSHOP_DIR @ [mod_id]) = Inl e \<Longrightarrow>
   update_mods_loop env ((mod_name, mod_id) # rest) updated_mods w = Inl e"
  by (simp add: dmin_present)

lemma keys_dict_set: "fst ` set (dict_set k v d) = insert k (fst ` set d)"
  by (induction d) force+

lemma py_int_None_step:
  "\<not> isdir (disk w) (A3_WORKSHOP_DIR @ [mod_id]) \<Longrightarrow> py_int mod_id = None \<Longrightarrow>
   update_mods_loop env ((mod_name, mod_id) # rest) updated_mods w = Inl ValueError"
  by (simp add: dmin_absent try_to_update_mod_def try_to_update_mod_loop.simps)

lemma update_mods_loop_keys:
  "update_mods_loop env ms acc w = Inr (r, w') \<Longrightarrow> fst ` set r \<subseteq> fst ` set acc \<union> fst ` set ms"
proof (induction ms arbitrary: acc w)
  case Nil
  then show ?case by simp
next
  case (Cons m ms)
  obtain mod_name mod_id where m: "m = (mod_name, mod_id)" by (cases m)
  let ?p = "A3_WORKSHOP_DIR @ [mod_id]"
  show ?case
  proof (cases "isdir (disk w) ?p")
    case False
    show ?thesis
    proof (cases "py_int mod_id")
      case None
      from Cons.prems have "Inl ValueError = Inr (r, w')"
        unfolding m py_int_None_step[OF False None] .
      then show ?thesis by simp
    next
      case (Some n)
      from Cons.prems have "update_mods_loop env ms acc
         (emit [Log_Failed mod_name 10] (fold (attempt env mod_name mod_id n) [1..<11] w)) = Inr (r, w')"
        unfolding m step_absent[OF False Some] .
      from Cons.IH[OF this] show ?thesis by auto
    qed
  next
    case True
    show ?thesis
    proof (cases "staleness env (disk w) mod_id ?p")
      case (Inl e)
      from Cons.prems have "Inl e = Inr (r, w')"
        unfolding m step_error[OF True Inl] .
      then show ?thesis by simp
    next
      case (Inr b)
      show ?thesis
      proof (cases b)
        case True
        with Inr have st: "staleness env (disk w) mod_id ?p = Inr True" by simp
        from Cons.prems have "update_mods_loop env ms (dict_set mod_name mod_id acc)
           (emit [Urlopen (changelog_url mod_id), Urlopen (changelog_url mod_id), Shutil_rmtree ?p]
             (w\<lparr>disk := rmtree (disk w) ?p\<rparr>)) = Inr (r, w')"
          unfolding m step_stale[OF \<open>isdir (disk w) ?p\<close> st] .
        from Cons.IH[OF this] show ?thesis by (auto simp: keys_dict_set m)
      next
        case False
        with Inr have st: "staleness env (disk w) mod_id ?p = Inr False" by simp
        from Cons.prems have "update_mods_loop env ms acc
           (emit [Urlopen (changelog_url mod_id), Urlopen (changelog_url mod_id), Print_Skipping mod_name mod_id] w) = Inr (r, w')"
          unfolding m step_fresh[OF \<open>isdir (disk w) ?p\<close> st] .
        from Cons.IH[OF this] show ?thesis by auto
      qed
    qed
  qed
qed

text \<open>
  Claim C5. A mod whose content directory is absent and never appears (the fetch never
  produces it) is fetched exactly ten times, is reported as failed and left out of the
  updated mods, and the pass goes on with the remaining mods. The retry loop is a total
  function: it cannot run forever.
\<close>

theorem C5_absent_mod_fails_after_ten_attempts:
  assumes absent: "\<not> isdir (disk w) (A3_WORKSHOP_DIR @ [mod_id])"
      and numeric: "py_int mod_id = Some n"
      and never: "\<forall>ut m x d. \<not> isdir d (A3_WORKSHOP_DIR @ [mod_id]) \<longrightarrow>
                    \<not> isdir (snd (steamcmd_run env ut m x d)) (A3_WORKSHOP_DIR @ [mod_id])"
      and new_name: "mod_name \<notin> fst ` set updated_mods" "mod_name \<notin> fst ` set rest"
  shows "\<exists>w'. try_to_update_mod env mod_id mod_name False w = Inr (False, w')
            \<and> fetch_count n (trace w') = fetch_count n (trace w) + 10
            \<and> last (trace w') = Log_Failed mod_name 10
            \<and> \<not> isdir (disk w') (A3_WORKSHOP_DIR @ [mod_id])
            \<and> update_mods_loop env ((mod_name, mod_id) # rest) updated_mods w =
                update_mods_loop env rest updated_mods w'
            \<and> (\<forall>r wf. update_mods_loop env ((mod_name, mod_id) # rest) updated_mods w = Inr (r, wf)
                  \<longrightarrow> mod_name \<notin> fst ` set r)"
proof -
  let ?p = "A3_WORKSHOP_DIR @ [mod_id]"
  let ?w1 = "fold (attempt env mod_name mod_id n) [1..<11] w"
  let ?w' = "emit [Log_Failed mod_name 10] ?w1"
  have a: "try_to_update_mod env mod_id mod_name False w = Inr (False, ?w')"
    by (rule try_False[OF numeric])
  have b: "fetch_count n (trace ?w') = fetch_count n (trace w) + 10"
    using fetch_count_attempts[of n env mod_name mod_id "[1..<11]" w]
    by (simp add: emit_def fetch_count_def)
  have c: "last (trace ?w') = Log_Failed mod_name 10"
    by (simp add: emit_def)
  have "\<not> isdir (disk ?w1) ?p"
    by (rule disk_attempts_inv[where P = "\<lambda>d. \<not> isdir d ?p"]) (use never absent in auto)
  then have d: "\<not> isdir (disk ?w') ?p" by (simp add: emit_def)
  have e: "update_mods_loop env ((mod_name, mod_id) # rest) updated_mods w =
                update_mods_loop env rest updated_mods ?w'"
    by (rule step_absent[OF absent numeric])
  have f: "\<forall>r wf. update_mods_loop env ((mod_name, mod_id) # rest) updated_mods w = Inr (r, wf)
                  \<longrightarrow> mod_name \<notin> fst ` set r"
  proof (intro allI impI)
    fix r wf
    assume "update_mods_loop env ((mod_name, mod_id) # rest) updated_mods w = Inr (r, wf)"
    then have "update_mods_loop env rest updated_mods ?w' = Inr (r, wf)" using e by simp
    from update_mods_loop_keys[OF this] new_name show "mod_name \<notin> fst ` set r" by auto
  qed
  from a b c d e f show ?thesis by blast
qed

lemma base_disk_mod_absent: "map_of base_disk (A3_WORKSHOP_DIR @ [v]) = None"
  by (simp add: base_disk_def A3_WORKSHOP_DIR_def A3_SERVER_DIR_def A3_WORKSHOP_ID_def
      A3_MOD_KEYS_DESTINATION_DIRECTORY_def)

lemma py_int_463939057: "py_int ''463939057'' = Some 463939057"
  by (simp add: py_int_def strip_def is_digit_def is_space_def)

lemma py_int_1700000000: "py_int ''1700000000'' = Some 1700000000"
  by (simp add: py_int_def strip_def is_digit_def is_space_def)

lemma PATTERN_search_page: "PATTERN_search page_1700000000 = Some ''1700000000''"
  by (simp add: PATTERN_search_def page_1700000000_def is_digit_def)

lemma staleness_env_of:
  "getctime d p = Inr c \<Longrightarrow> staleness (env_of f) d mod_id p = Inr (c \<le> 1700000000000000)"
  by (simp add: staleness_def env_of_def PATTERN_search_page py_int_1700000000 fromtimestamp_def)

theorem C5_witness:
  "\<not> isdir (disk (world0 base_disk)) (A3_WORKSHOP_DIR @ [''463939057''])
   \<and> py_int ''463939057'' = Some 463939057
   \<and> (\<exists>w'. try_to_update_mod (env_of fetch_nothing) ''463939057'' ''ace'' False (world0 base_disk) = Inr (False, w')
        \<and> fetch_count 463939057 (trace w') = 10
        \<and> update_mods_loop (env_of fetch_nothing) [(''ace'', ''463939057'')] [] (world0 base_disk) = Inr ([], w'))"
proof -
  have h1: "\<not> isdir (disk (world0 base_disk)) (A3_WORKSHOP_DIR @ [''463939057''])"
    by (simp add: world0_def isdir_def base_disk_mod_absent)
  have h3: "\<forall>ut m x d. \<not> isdir d (A3_WORKSHOP_DIR @ [''463939057'']) \<longrightarrow>
              \<not> isdir (snd (steamcmd_run (env_of fetch_nothing) ut m x d)) (A3_WORKSHOP_DIR @ [''463939057''])"
    by (simp add: env_of_def fetch_nothing_def)
  have h4: "''ace'' \<notin> fst ` set ([] :: (string \<times> string) list)" by simp
  from C5_absent_mod_fails_after_ten_attempts[OF h1 py_int_463939057 h3 h4 h4]
  show ?thesis using h1 py_int_463939057 by (auto simp: world0_def fetch_count_def)
qed

text \<open>
  Claim C6. The staleness check returns false when the path is no directory; with a
  directory and a response of the remote, it returns false when the response holds no
  timestamp marker, and otherwise exactly whether the remote update time is at or after
  the local creation time: false when the directory was created strictly later, true when
  strictly earlier.
\<close>

theorem C6_staleness_check:
  "(\<not> isdir (disk w) path \<longrightarrow> mod_needs_update env mod_id path w = Inr (False, w))
   \<and> (isdir (disk w) path \<and> urlopen env (changelog_url mod_id) = Inr response \<longrightarrow>
        (PATTERN_search response = None \<longrightarrow>
           mod_needs_update env mod_id path w = Inr (False, emit [Urlopen (changelog_url mod_id)] w))
        \<and> (\<forall>g n created_at.
              PATTERN_search response = Some g \<and> py_int g = Some n \<and> n \<le> 253402300799
              \<and> getctime (disk w) path = Inr created_at \<longrightarrow>
                mod_needs_update env mod_id path w =
                  Inr (n * 1000000 \<ge> created_at, emit [Urlopen (changelog_url mod_id)] w)
                \<and> (n * 1000000 < created_at \<longrightarrow>
                     mod_needs_update env mod_id path w = Inr (False, emit [Urlopen (changelog_url mod_id)] w))
                \<and> (created_at < n * 1000000 \<longrightarrow>
                     mod_needs_update env mod_id path w = Inr (True, emit [Urlopen (changelog_url mod_id)] w))))"
  by (auto simp: mnu_absent mnu_present staleness_def fromtimestamp_def)

lemma isdir_getctime: "isdir d p \<Longrightarrow> \<exists>t. getctime d p = Inr t"
  by (auto simp: isdir_def getctime_def split: option.splits node.splits)

lemma map_of_disk1: "map_of (disk1 t) (A3_WORKSHOP_DIR @ [''463939057'']) = Some (Dir t)"
  by (simp add: disk1_def map_add_def base_disk_mod_absent)

lemma isdir_disk1: "isdir (disk1 t) (A3_WORKSHOP_DIR @ [''463939057''])"
  by (simp add: isdir_def map_of_disk1)

lemma getctime_disk1: "getctime (disk1 t) (A3_WORKSHOP_DIR @ [''463939057'']) = Inr t"
  by (simp add: getctime_def map_of_disk1)

lemma rmtree_disk1: "rmtree (disk1 t) (A3_WORKSHOP_DIR @ [''463939057'']) = base_disk"
  by (simp add: rmtree_def disk1_def base_disk_def A3_WORKSHOP_DIR_def A3_SERVER_DIR_def A3_WORKSHOP_ID_def
      A3_MOD_KEYS_DESTINATION_DIRECTORY_def)

theorem C6_witness:
  "isdir (disk (world0 (disk1 1600000000000000))) (A3_WORKSHOP_DIR @ [''463939057''])
   \<and> mod_needs_update (env_of fetch_nothing) ''463939057'' (A3_WORKSHOP_DIR @ [''463939057''])
        (world0 (disk1 1600000000000000))
      = Inr (True, emit [Urlopen (changelog_url ''463939057'')] (world0 (disk1 1600000000000000)))
   \<and> mod_needs_update (env_of fetch_nothing) ''463939057'' (A3_WORKSHOP_DIR @ [''463939057''])
        (world0 base_disk) = Inr (False, world0 base_disk)"
proof -
  let ?w = "world0 (disk1 1600000000000000)"
  let ?p = "A3_WORKSHOP_DIR @ [''463939057'']"
  have h1: "isdir (disk ?w) ?p" by (simp add: world0_def isdir_disk1)
  have h2: "urlopen (env_of fetch_nothing) (changelog_url ''463939057'') = Inr page_1700000000"
    by (simp add: env_of_def)
  have h3: "getctime (disk ?w) ?p = Inr 1600000000000000" by (simp add: world0_def getctime_disk1)
  have h0: "\<not> isdir (disk (world0 base_disk)) ?p"
    by (simp add: world0_def isdir_def base_disk_mod_absent)
  from C6_staleness_check[of ?w ?p "env_of fetch_nothing" "''463939057''" page_1700000000]
       C6_staleness_check[of "world0 base_disk" ?p "env_of fetch_nothing" "''463939057''" page_1700000000]
       h0 h1 h2 h3 PATTERN_search_page py_int_1700000000
  show ?thesis by simp
qed

lemma map_of_base_disk_snoc:
  "map_of (base_disk @ [(A3_WORKSHOP_DIR @ [v], n)]) (A3_WORKSHOP_DIR @ [v]) = Some n"
  by (simp add: map_add_def base_disk_mod_absent)

lemma attempt_fetch_creates_absent:
  "attempt (env_of (fetch_creates (A3_WORKSHOP_DIR @ [v]) t)) mod_name mod_id n k
      \<lparr>disk = base_disk, ext = (), trace = tr\<rparr>
   = \<lparr>disk = base_disk @ [(A3_WORKSHOP_DIR @ [v], Dir t)], ext = (),
       trace = tr @ [Log_Updating mod_name mod_id k, SteamCmd_run MOD (Some n), Sleep 5]\<rparr>"
  by (simp add: attempt_def env_of_def fetch_creates_def emit_def Let_def base_disk_mod_absent)

lemma attempt_fetch_creates_present:
  "attempt (env_of (fetch_creates (A3_WORKSHOP_DIR @ [v]) t)) mod_name mod_id n k
      \<lparr>disk = base_disk @ [(A3_WORKSHOP_DIR @ [v], Dir t)], ext = (), trace = tr\<rparr>
   = \<lparr>disk = base_disk @ [(A3_WORKSHOP_DIR @ [v], Dir t)], ext = (),
       trace = tr @ [Log_Updating mod_name mod_id k, SteamCmd_run MOD (Some n), Sleep 5]\<rparr>"
  by (simp add: attempt_def env_of_def fetch_creates_def emit_def Let_def map_of_base_disk_snoc)

lemma attempts_fetch_creates_present:
  "fold (attempt (env_of (fetch_creates (A3_WORKSHOP_DIR @ [v]) t)) mod_name mod_id n) ks
      \<lparr>disk = base_disk @ [(A3_WORKSHOP_DIR @ [v], Dir t)], ext = (), trace = tr\<rparr>
   = \<lparr>disk = base_disk @ [(A3_WORKSHOP_DIR @ [v], Dir t)], ext = (),
       trace = tr @ concat (map (\<lambda>k. [Log_Updating mod_name mod_id k, SteamCmd_run MOD (Some n), Sleep 5]) ks)\<rparr>"
  by (induction ks arbitrary: tr) (simp_all add: attempt_fetch_creates_present)

lemma upt_1_11: "[1..<11] = 1 # [2..<11]"
  by (simp add: upt_conv_Cons)

text \<open>
  Claim C1 says that a mod is among the updated mods exactly when its content directory
  exists after a fetch of the pass, the directory being checked again after each fetch.
  The loop never looks at the disk again: for an absent mod whose first fetch creates the
  directory, the pass still makes all ten fetches, logs a failure and returns no updated
  mod, while the directory is there.
\<close>

theorem C1_fetched_mod_is_not_recorded:
  "update_mods (env_of (fetch_creates (A3_WORKSHOP_DIR @ [''463939057'']) 1800000000000000))
      [(''ace'', ''463939057'')] (world0 base_disk)
   = Inr (None,
       \<lparr>disk = disk1 1800000000000000, ext = (),
        trace = concat (map (\<lambda>k. [Log_Updating ''ace'' ''463939057'' k,
                                  SteamCmd_run MOD (Some 463939057), Sleep 5]) [1..<11])
                @ [Log_Failed ''ace'' 10]\<rparr>)
   \<and> isdir (disk1 1800000000000000) (A3_WORKSHOP_DIR @ [''463939057''])"
proof -
  have absent: "\<not> isdir (disk (world0 base_disk)) (A3_WORKSHOP_DIR @ [''463939057''])"
    by (simp add: world0_def isdir_def base_disk_mod_absent)
  let ?A = "attempt (env_of (fetch_creates (A3_WORKSHOP_DIR @ [''463939057'']) 1800000000000000))
           ''ace'' ''463939057'' 463939057"
  let ?ev = "\<lambda>k. [Log_Updating ''ace'' ''463939057'' k, SteamCmd_run MOD (Some 463939057), Sleep 5]"
  have "fold ?A [1..<11] (world0 base_disk) = fold ?A [2..<11] (?A 1 (world0 base_disk))"
    by (simp only: upt_1_11 fold_simps)
  also have "?A 1 (world0 base_disk)
      = \<lparr>disk = base_disk @ [(A3_WORKSHOP_DIR @ [''463939057''], Dir 1800000000000000)], ext = (),
          trace = [] @ ?ev 1\<rparr>"
    unfolding world0_def by (rule attempt_fetch_creates_absent)
  also have "fold ?A [2..<11] \<dots>
      = \<lparr>disk = base_disk @ [(A3_WORKSHOP_DIR @ [''463939057''], Dir 1800000000000000)], ext = (),
          trace = ([] @ ?ev 1) @ concat (map ?ev [2..<11])\<rparr>"
    by (rule attempts_fetch_creates_present)
  also have "([] @ ?ev 1) @ concat (map ?ev [2..<11]) = concat (map ?ev [1..<11])"
    by (simp only: upt_1_11 list.map concat.simps append_Nil)
  finally have F: "fold ?A [1..<11] (world0 base_disk)
        = \<lparr>disk = disk1 1800000000000000, ext = (), trace = concat (map ?ev [1..<11])\<rparr>"
    by (simp only: disk1_def)
  show ?thesis
    unfolding update_mods_def step_absent[OF absent py_int_463939057] F update_mods_loop.simps(1)
    by (simp add: emit_def isdir_disk1)
qed

text \<open>
  Claim C2 says that a stale mod is deleted and then fetched at least once. For a
  directory created before the remote update, the pass deletes the directory, runs no
  fetch at all, and reports the mod as updated; the directory is gone afterwards.
\<close>

theorem C2_stale_mod_is_deleted_and_not_fetched:
  "update_mods (env_of fetch_nothing) [(''ace'', ''463939057'')] (world0 (disk1 1600000000000000))
   = Inr (Some [(''ace'', ''463939057'')],
       \<lparr>disk = base_disk, ext = (),
        trace = [Urlopen (changelog_url ''463939057''), Urlopen (changelog_url ''463939057''),
                 Shutil_rmtree (A3_WORKSHOP_DIR @ [''463939057''])]\<rparr>)
   \<and> \<not> isdir base_disk (A3_WORKSHOP_DIR @ [''463939057''])"
proof -
  let ?w = "world0 (disk1 1600000000000000)"
  have present: "isdir (disk ?w) (A3_WORKSHOP_DIR @ [''463939057''])"
    by (simp add: world0_def isdir_disk1)
  have stale: "staleness (env_of fetch_nothing) (disk ?w) ''463939057'' (A3_WORKSHOP_DIR @ [''463939057'']) = Inr True"
    by (simp add: world0_def staleness_env_of[OF getctime_disk1])
  show ?thesis
    unfolding update_mods_def step_stale[OF present stale] update_mods_loop.simps(1)
    by (simp add: emit_def world0_def rmtree_disk1 isdir_def base_disk_mod_absent)
qed

text \<open>
  Claim C4 says that the remote changelog is read at most once for a mod in a pass. For
  a mod whose directory exists, \<open>_delete_mod_if_needed\<close> asks
  \<open>_mod_needs_update\<close> twice, and each call reads the remote.
\<close>

theorem C4_two_network_reads_for_one_mod:
  "update_mods (env_of fetch_nothing) [(''ace'', ''463939057'')] (world0 (disk1 1800000000000000))
   = Inr (None,
       \<lparr>disk = disk1 1800000000000000, ext = (),
        trace = [Urlopen (changelog_url ''463939057''), Urlopen (changelog_url ''463939057''),
                 Print_Skipping ''ace'' ''463939057'']\<rparr>)"
proof -
  let ?w = "world0 (disk1 1800000000000000)"
  have present: "isdir (disk ?w) (A3_WORKSHOP_DIR @ [''463939057''])"
    by (simp add: world0_def isdir_disk1)
  have fresh: "staleness (env_of fetch_nothing) (disk ?w) ''463939057'' (A3_WORKSHOP_DIR @ [''463939057'']) = Inr False"
    by (simp add: world0_def staleness_env_of[OF getctime_disk1])
  show ?thesis
    unfolding update_mods_def step_fresh[OF present fresh] update_mods_loop.simps(1)
    by (simp add: emit_def world0_def)
qed

section \<open>Properties of the file system\<close>

lemma depth_mem: "(k, n) \<in> set d \<Longrightarrow> length k \<le> depth d"
  by (induction d) auto

lemma isdir_mem: "isdir d p \<Longrightarrow> \<exists>t. (p, Dir t) \<in> set d"
  by (auto simp: isdir_def split: option.splits dest: map_of_SomeD elim: is_Dir.elims)

lemma isdir_depth: "isdir d p \<Longrightarrow> length p \<le> depth d"
  using isdir_mem depth_mem by blast

lemma scandir_mem: "(name, nd) \<in> set (scandir d root) \<Longrightarrow> (root @ [name], nd) \<in> set d"
  by (auto simp: scandir_def)

lemma listdirs_mem: "name \<in> set (listdirs d root) \<Longrightarrow> \<exists>nd. (root @ [name], nd) \<in> set d"
  by (auto simp: listdirs_def dest!: scandir_mem)

lemma listfiles_mem: "name \<in> set (listfiles d root) \<Longrightarrow> \<exists>nd. (root @ [name], nd) \<in> set d"
  by (auto simp: listfiles_def dest!: scandir_mem)

section \<open>Properties of os.walk\<close>

declare os_walk.simps [simp del]

lemma os_walk_0: "os_walk 0 fs_of body topdir s = (if \<not> isdir (fs_of s) topdir then Some (Inr s) else None)"
  by (simp add: os_walk.simps)

lemma os_walk_Suc:
  "os_walk (Suc n) fs_of body topdir s =
     (if \<not> isdir (fs_of s) topdir then Some (Inr s)
      else case body topdir (listdirs (fs_of s) topdir) (listfiles (fs_of s) topdir) s of
             Inl e \<Rightarrow> Some (Inl e)
           | Inr s1 \<Rightarrow> os_walk_dirs n fs_of body topdir (listdirs (fs_of s) topdir) s1)"
  by (simp add: os_walk.simps Let_def)

lemma os_walk_enough_fuel:
  fixes fs_of :: "'s \<Rightarrow> filesystem"
  assumes body: "\<And>root s. Q root \<Longrightarrow> P s \<Longrightarrow> isdir (fs_of s) root \<Longrightarrow>
            (case body root (listdirs (fs_of s) root) (listfiles (fs_of s) root) s of
               Inl e \<Rightarrow> E e | Inr s' \<Rightarrow> P s')"
      and step: "\<And>root name s. Q root \<Longrightarrow> P s \<Longrightarrow> isdir (fs_of s) (root @ [name]) \<Longrightarrow> Q (root @ [name])"
      and bound: "\<And>root s. Q root \<Longrightarrow> P s \<Longrightarrow> isdir (fs_of s) root \<Longrightarrow> length root \<le> D"
  shows "(\<forall>topdir s. (isdir (fs_of s) topdir \<longrightarrow> Q topdir) \<longrightarrow> P s \<longrightarrow> D < fuel + length topdir \<longrightarrow>
            (case os_walk fuel fs_of body topdir s of
               None \<Rightarrow> False | Some (Inl e) \<Rightarrow> E e | Some (Inr s') \<Rightarrow> P s'))
       \<and> (\<forall>topdir dirs s. Q topdir \<longrightarrow> P s \<longrightarrow> D \<le> fuel + length topdir \<longrightarrow>
            (case os_walk_dirs fuel fs_of body topdir dirs s of
               None \<Rightarrow> False | Some (Inl e) \<Rightarrow> E e | Some (Inr s') \<Rightarrow> P s'))"
proof (induction fuel)
  case 0
  have w0: "\<forall>topdir s. (isdir (fs_of s) topdir \<longrightarrow> Q topdir) \<longrightarrow> P s \<longrightarrow> D < 0 + length topdir \<longrightarrow>
            (case os_walk 0 fs_of body topdir s of
               None \<Rightarrow> False | Some (Inl e) \<Rightarrow> E e | Some (Inr s') \<Rightarrow> P s')"
    using bound by (fastforce simp: os_walk_0)
  have "(case os_walk_dirs 0 fs_of body topdir dirs s of
               None \<Rightarrow> False | Some (Inl e) \<Rightarrow> E e | Some (Inr s') \<Rightarrow> P s')"
    if "Q topdir" "P s" "D \<le> 0 + length topdir" for topdir dirs s
    using that
  proof (induction dirs arbitrary: s)
    case Nil
    then show ?case by simp
  next
    case (Cons a dirs)
    show ?case
    proof (cases "islink (fs_of s) (topdir @ [a])")
      case True
      then show ?thesis using Cons by simp
    next
      case False
      have "\<not> isdir (fs_of s) (topdir @ [a])"
      proof
        assume d: "isdir (fs_of s) (topdir @ [a])"
        from step[OF Cons.prems(1,2) d] have "Q (topdir @ [a])" .
        from bound[OF this Cons.prems(2) d] Cons.prems(3) show False by simp
      qed
      then show ?thesis using False Cons by (simp add: os_walk_0)
    qed
  qed
  with w0 show ?case by blast
next
  case (Suc n)
  have w: "(case os_walk (Suc n) fs_of body topdir s of
               None \<Rightarrow> False | Some (Inl e) \<Rightarrow> E e | Some (Inr s') \<Rightarrow> P s')"
    if pre: "isdir (fs_of s) topdir \<longrightarrow> Q topdir" "P s" "D < Suc n + length topdir" for topdir s
  proof (cases "isdir (fs_of s) topdir")
    case False
    then show ?thesis using pre by (simp add: os_walk_Suc)
  next
    case True
    with pre have q: "Q topdir" by simp
    show ?thesis
    proof (cases "body topdir (listdirs (fs_of s) topdir) (listfiles (fs_of s) topdir) s")
      case (Inl e)
      with body[OF q pre(2) True] True show ?thesis by (simp add: os_walk_Suc)
    next
      case (Inr s1)
      with body[OF q pre(2) True] have "P s1" by simp
      moreover have "D \<le> n + length topdir" using pre(3) by simp
      ultimately have "(case os_walk_dirs n fs_of body topdir (listdirs (fs_of s) topdir) s1 of
               None \<Rightarrow> False | Some (Inl e) \<Rightarrow> E e | Some (Inr s') \<Rightarrow> P s')"
        using Suc q by blast
      with Inr True show ?thesis by (simp add: os_walk_Suc)
    qed
  qed
  have "(case os_walk_dirs (Suc n) fs_of body topdir dirs s of
               None \<Rightarrow> False | Some (Inl e) \<Rightarrow> E e | Some (Inr s') \<Rightarrow> P s')"
    if "Q topdir" "P s" "D \<le> Suc n + length topdir" for topdir dirs s
    using that
  proof (induction dirs arbitrary: s)
    case Nil
    then show ?case by simp
  next
    case (Cons a dirs)
    show ?case
    proof (cases "islink (fs_of s) (topdir @ [a])")
      case True
      then show ?thesis using Cons by simp
    next
      case False
      have "isdir (fs_of s) (topdir @ [a]) \<longrightarrow> Q (topdir @ [a])"
        using step[OF Cons.prems(1,2)] by blast
      moreover have "D < Suc n + length (topdir @ [a])" using Cons.prems(3) by simp
      ultimately have r: "(case os_walk (Suc n) fs_of body (topdir @ [a]) s of
               None \<Rightarrow> False | Some (Inl e) \<Rightarrow> E e | Some (Inr s') \<Rightarrow> P s')"
        using w Cons.prems(2) by blast
      show ?thesis
      proof (cases "os_walk (Suc n) fs_of body (topdir @ [a]) s")
        case None
        with r show ?thesis by simp
      next
        case (Some res)
        show ?thesis
        proof (cases res)
          case (Inl e)
          with Some r False show ?thesis by simp
        next
          case (Inr s1)
          with Some r have "P s1" by simp
          from Cons.IH[OF Cons.prems(1) this Cons.prems(3)] Some Inr False show ?thesis by simp
        qed
      qed
    qed
  qed
  with w show ?case by blast
qed

lemma os_walk_invariant:
  fixes fs_of :: "'s \<Rightarrow> filesystem"
  assumes body: "\<And>root s. Q root \<Longrightarrow> P s \<Longrightarrow> isdir (fs_of s) root \<Longrightarrow>
            (case body root (listdirs (fs_of s) root) (listfiles (fs_of s) root) s of
               Inl e \<Rightarrow> E e | Inr s' \<Rightarrow> P s')"
      and step: "\<And>root name s. Q root \<Longrightarrow> P s \<Longrightarrow> isdir (fs_of s) (root @ [name]) \<Longrightarrow> Q (root @ [name])"
  shows "(\<forall>topdir s. (isdir (fs_of s) topdir \<longrightarrow> Q topdir) \<longrightarrow> P s \<longrightarrow>
            (case os_walk fuel fs_of body topdir s of
               None \<Rightarrow> True | Some (Inl e) \<Rightarrow> E e | Some (Inr s') \<Rightarrow> P s'))
       \<and> (\<forall>topdir dirs s. Q topdir \<longrightarrow> P s \<longrightarrow>
            (case os_walk_dirs fuel fs_of body topdir dirs s of
               None \<Rightarrow> True | Some (Inl e) \<Rightarrow> E e | Some (Inr s') \<Rightarrow> P s'))"
proof (induction fuel)
  case 0
  have w0: "\<forall>topdir s. (isdir (fs_of s) topdir \<longrightarrow> Q topdir) \<longrightarrow> P s \<longrightarrow>
            (case os_walk 0 fs_of body topdir s of
               None \<Rightarrow> True | Some (Inl e) \<Rightarrow> E e | Some (Inr s') \<Rightarrow> P s')"
    by (simp add: os_walk_0)
  have "(case os_walk_dirs 0 fs_of body topdir dirs s of
               None \<Rightarrow> True | Some (Inl e) \<Rightarrow> E e | Some (Inr s') \<Rightarrow> P s')"
    if "Q topdir" "P s" for topdir dirs s
    using that
  proof (induction dirs arbitrary: s)
    case Nil
    then show ?case by simp
  next
    case (Cons a dirs)
    then show ?case by (simp add: os_walk_0 Let_def)
  qed
  with w0 show ?case by blast
next
  case (Suc n)
  have w: "(case os_walk (Suc n) fs_of body topdir s of
               None \<Rightarrow> True | Some (Inl e) \<Rightarrow> E e | Some (Inr s') \<Rightarrow> P s')"
    if pre: "isdir (fs_of s) topdir \<longrightarrow> Q topdir" "P s" for topdir s
  proof (cases "isdir (fs_of s) topdir")
    case False
    then show ?thesis using pre by (simp add: os_walk_Suc)
  next
    case True
    with pre have q: "Q topdir" by simp
    show ?thesis
    proof (cases "body topdir (listdirs (fs_of s) topdir) (listfiles (fs_of s) topdir) s")
      case (Inl e)
      with body[OF q pre(2) True] True show ?thesis by (simp add: os_walk_Suc)
    next
      case (Inr s1)
      with body[OF q pre(2) True] have "P s1" by simp
      then have "(case os_walk_dirs n fs_of body topdir (listdirs (fs_of s) topdir) s1 of
               None \<Rightarrow> True | Some (Inl e) \<Rightarrow> E e | Some (Inr s') \<Rightarrow> P s')"
        using Suc q by blast
      with Inr True show ?thesis by (simp add: os_walk_Suc)
    qed
  qed
  have "(case os_walk_dirs (Suc n) fs_of body topdir dirs s of
               None \<Rightarrow> True | Some (Inl e) \<Rightarrow> E e | Some (Inr s') \<Rightarrow> P s')"
    if "Q topdir" "P s" for topdir dirs s
    using that
  proof (induction dirs arbitrary: s)
    case Nil
    then show ?case by simp
  next
    case (Cons a dirs)
    show ?case
    proof (cases "islink (fs_of s) (topdir @ [a])")
      case True
      then show ?thesis using Cons by simp
    next
      case False
      have "isdir (fs_of s) (topdir @ [a]) \<longrightarrow> Q (topdir @ [a])"
        using step[OF Cons.prems(1,2)] by blast
      then have r: "(case os_walk (Suc n) fs_of body (topdir @ [a]) s of
               None \<Rightarrow> True | Some (Inl e) \<Rightarrow> E e | Some (Inr s') \<Rightarrow> P s')"
        using w Cons.prems(2) by blast
      show ?thesis
      proof (cases "os_walk (Suc n) fs_of body (topdir @ [a]) s")
        case None
        with False show ?thesis by simp
      next
        case (Some res)
        show ?thesis
        proof (cases res)
          case (Inl e)
          with Some r False show ?thesis by simp
        next
          case (Inr s1)
          with Some r have "P s1" by simp
          from Cons.IH[OF Cons.prems(1) this] Some Inr False show ?thesis by simp
        qed
      qed
    qed
  qed
  with w show ?case by blast
qed

lemma os_walk_nondir: "\<not> isdir (fs_of s) p \<Longrightarrow> os_walk fuel fs_of body p s = Some (Inr s)"
  by (simp add: os_walk.simps)

lemma lower_path_append: "lower_path (p @ q) = lower_path p @ lower_path q"
  by (simp add: lower_path_def)

lemma lower_path_workshop: "lower_path A3_WORKSHOP_DIR = A3_WORKSHOP_DIR"
  by (simp add: lower_path_def lower_def lower_char_def A3_WORKSHOP_DIR_def A3_SERVER_DIR_def A3_WORKSHOP_ID_def)

lemma rename_entry_lower: "lower_path (root @ [name]) = root @ [name] \<Longrightarrow> rename_entry root name w = w"
  by (simp add: rename_entry_def)

lemma fold_id: "(\<And>x. x \<in> set xs \<Longrightarrow> f x w = w) \<Longrightarrow> fold f xs w = w"
  by (induction xs) simp_all

lemma lower_case_body_id:
  assumes low: "\<And>k n. (k, n) \<in> set (disk w) \<Longrightarrow> prefix base k \<Longrightarrow> lower_path k = k"
      and root: "prefix base root"
  shows "lower_case_body root (listdirs (disk w) root) (listfiles (disk w) root) w = Inr w"
proof -
  have "rename_entry root name w = w"
    if "name \<in> set (listfiles (disk w) root @ listdirs (disk w) root)" for name
  proof -
    from that obtain nd where "(root @ [name], nd) \<in> set (disk w)"
      using listdirs_mem listfiles_mem by fastforce
    moreover have "prefix base (root @ [name])" using root by (simp add: prefix_prefix)
    ultimately have "lower_path (root @ [name]) = root @ [name]" using low by blast
    then show ?thesis by (rule rename_entry_lower)
  qed
  then show ?thesis unfolding lower_case_body_def by (simp add: fold_id)
qed

lemma os_walk_lower_id:
  assumes low: "\<And>k n. (k, n) \<in> set (disk w) \<Longrightarrow> prefix base k \<Longrightarrow> lower_path k = k"
      and fuel: "depth (disk w) < fuel"
  shows "os_walk fuel disk lower_case_body base w = Some (Inr w)"
proof -
  have "(\<forall>topdir s. (isdir (disk s) topdir \<longrightarrow> prefix base topdir) \<longrightarrow> s = w \<longrightarrow>
            depth (disk w) < fuel + length topdir \<longrightarrow>
            (case os_walk fuel disk lower_case_body topdir s of
               None \<Rightarrow> False | Some (Inl e) \<Rightarrow> False | Some (Inr s') \<Rightarrow> s' = w))
       \<and> (\<forall>topdir dirs s. prefix base topdir \<longrightarrow> s = w \<longrightarrow> depth (disk w) \<le> fuel + length topdir \<longrightarrow>
            (case os_walk_dirs fuel disk lower_case_body topdir dirs s of
               None \<Rightarrow> False | Some (Inl e) \<Rightarrow> False | Some (Inr s') \<Rightarrow> s' = w))"
  proof (rule os_walk_enough_fuel)
    fix root s
    assume "prefix base root" "s = w" "isdir (disk s) root"
    then show "case lower_case_body root (listdirs (disk s) root) (listfiles (disk s) root) s of
                 Inl e \<Rightarrow> False | Inr s' \<Rightarrow> s' = w"
      using lower_case_body_id[of w base root] low by simp
  next
    fix root name and s :: "'a world"
    assume "prefix base root"
    then show "prefix base (root @ [name])" by (simp add: prefix_prefix)
  next
    fix root s
    assume "s = w" "isdir (disk s) root"
    then show "length root \<le> depth (disk w)" by (simp add: isdir_depth)
  qed
  then have "case os_walk fuel disk lower_case_body base w of
               None \<Rightarrow> False | Some (Inl e) \<Rightarrow> False | Some (Inr s') \<Rightarrow> s' = w"
    using fuel by simp
  then show ?thesis by (auto split: option.splits sum.splits)
qed

lemma lower_case_mods_loop_id:
  assumes low: "\<And>v k n. v \<in> set vs \<Longrightarrow> (k, n) \<in> set (disk w) \<Longrightarrow> prefix (A3_WORKSHOP_DIR @ [v]) k
                  \<Longrightarrow> lower_path k = k"
      and fuel: "depth (disk w) < fuel"
  shows "lower_case_mods_loop fuel vs w = Some (Inr w)"
  using low
proof (induction vs)
  case Nil
  then show ?case by simp
next
  case (Cons v vs)
  have "os_walk fuel disk lower_case_body (A3_WORKSHOP_DIR @ [v]) w = Some (Inr w)"
    by (rule os_walk_lower_id[OF _ fuel]) (use Cons.prems in auto)
  moreover have "lower_case_mods_loop fuel vs w = Some (Inr w)"
    by (rule Cons.IH) (use Cons.prems in auto)
  ultimately show ?case by simp
qed

text \<open>
  Claim C10. When every path below the directories of the updated mods is lower-case
  already, the normalizer renames nothing: with fuel beyond the depth of the disk the walk
  ends, the disk is the same and the trace gains the log line only, no \<open>os.rename\<close>.
  The same holds on the world that this run leaves, so a second run renames nothing
  either.
\<close>

theorem C10_lower_case_tree_is_left_alone:
  assumes low: "\<forall>v \<in> snd ` set updated_mods. \<forall>(k, n) \<in> set (disk w).
                  prefix (A3_WORKSHOP_DIR @ [v]) k \<longrightarrow> lower_path k = k"
      and fuel: "depth (disk w) < fuel"
  shows "lower_case_mods fuel updated_mods w = Some (Inr (emit [Log_Converting] w))
       \<and> lower_case_mods fuel updated_mods (emit [Log_Converting] w)
           = Some (Inr (emit [Log_Converting, Log_Converting] w))"
proof -
  have "lower_case_mods_loop fuel (map snd updated_mods) (emit es w) = Some (Inr (emit es w))" for es
    by (rule lower_case_mods_loop_id) (use low fuel in \<open>auto simp: emit_def\<close>)
  from this[of "[Log_Converting]"] this[of "[Log_Converting, Log_Converting]"]
  show ?thesis by (simp add: lower_case_mods_def emit_def)
qed

lemmas path_defs = A3_WORKSHOP_DIR_def A3_SERVER_DIR_def A3_WORKSHOP_ID_def
  A3_MOD_KEYS_DESTINATION_DIRECTORY_def A3_MODS_DIR_def A3_MOD_KEYS_SOURCE_DIRECTORY_def

lemmas disk_defs = disk1_def base_disk_def disk_mixed_def disk_half_def disk_lower_def

lemma mixed_isdir: "isdir disk_mixed (A3_WORKSHOP_DIR @ [''463939057''])"
  by (simp add: isdir_def disk_defs path_defs)

lemma mixed_listdirs: "listdirs disk_mixed (A3_WORKSHOP_DIR @ [''463939057'']) = [''UPPER_DIR'']"
  by (simp add: listdirs_def scandir_def disk_defs path_defs)

lemma mixed_listfiles: "listfiles disk_mixed (A3_WORKSHOP_DIR @ [''463939057'']) = []"
  by (simp add: listfiles_def scandir_def disk_defs path_defs)

lemma lower_upper_dir:
  "lower_path (A3_WORKSHOP_DIR @ [''463939057'', ''UPPER_DIR'']) = A3_WORKSHOP_DIR @ [''463939057'', ''upper_dir'']"
  by (simp add: lower_path_append lower_path_workshop) (simp add: lower_path_def lower_def lower_char_def char_of_eq_iff)

lemma mixed_rename:
  "os_rename disk_mixed (A3_WORKSHOP_DIR @ [''463939057'', ''UPPER_DIR''])
     (A3_WORKSHOP_DIR @ [''463939057'', ''upper_dir'']) = Some disk_half"
  by (simp add: os_rename_def isdir_def move_tree_def disk_defs path_defs)

lemma half_not_dir: "\<not> isdir disk_half (A3_WORKSHOP_DIR @ [''463939057'', ''UPPER_DIR''])"
  by (simp add: isdir_def disk_defs path_defs)

lemma half_not_link: "\<not> islink disk_half (A3_WORKSHOP_DIR @ [''463939057'', ''UPPER_DIR''])"
  by (simp add: islink_def disk_defs path_defs)

lemma half_lookup:
  "map_of disk_half (A3_WORKSHOP_DIR @ [''463939057'', ''upper_dir'', ''mixedcase.pbo'']) = None
   \<and> map_of disk_half (A3_WORKSHOP_DIR @ [''463939057'', ''upper_dir'', ''MixedCase.PBO'']) = Some (File ''pbo'')"
  by (simp add: disk_defs path_defs)

text \<open>
  Claim C3 says that after the normalizer every name in the tree is lower-case, with the
  children of a directory handled before the directory is renamed. The walk is top-down:
  \<open>UPPER_DIR\<close> is renamed while its parent is listed, the walk then looks for
  \<open>UPPER_DIR\<close>, which is gone, and never lists the renamed directory. The file
  inside keeps the name \<open>MixedCase.PBO\<close>, whatever the fuel, and nothing is at the
  lower-case path.
\<close>

theorem C3_nested_file_keeps_its_upper_case_name:
  "lower_case_mods (Suc fuel) [(''ace'', ''463939057'')] (world0 disk_mixed)
   = Some (Inr \<lparr>disk = disk_half, ext = (),
         trace = [Log_Converting,
                  Os_rename (A3_WORKSHOP_DIR @ [''463939057'', ''UPPER_DIR''])
                            (A3_WORKSHOP_DIR @ [''463939057'', ''upper_dir'']),
                  Print_Renamed ''UPPER_DIR'' (A3_WORKSHOP_DIR @ [''463939057'', ''upper_dir''])]\<rparr>)
   \<and> map_of disk_half (A3_WORKSHOP_DIR @ [''463939057'', ''upper_dir'', ''mixedcase.pbo'']) = None
   \<and> map_of disk_half (A3_WORKSHOP_DIR @ [''463939057'', ''upper_dir'', ''MixedCase.PBO''])
       = Some (File ''pbo'')"
proof -
  let ?p = "A3_WORKSHOP_DIR @ [''463939057'']"
  let ?w0 = "\<lparr>disk = disk_mixed, ext = (), trace = [Log_Converting]\<rparr>"
  let ?w1 = "\<lparr>disk = disk_half, ext = (),
         trace = [Log_Converting,
                  Os_rename (A3_WORKSHOP_DIR @ [''463939057'', ''UPPER_DIR''])
                            (A3_WORKSHOP_DIR @ [''463939057'', ''upper_dir'']),
                  Print_Renamed ''UPPER_DIR'' (A3_WORKSHOP_DIR @ [''463939057'', ''upper_dir''])]\<rparr>"
  have body: "lower_case_body ?p [''UPPER_DIR''] [] ?w0 = Inr ?w1"
    using lower_upper_dir mixed_rename
    by (simp add: lower_case_body_def rename_entry_def emit_def Let_def)
  have sub: "os_walk fuel disk lower_case_body (?p @ [''UPPER_DIR'']) ?w1 = Some (Inr ?w1)"
    by (rule os_walk_nondir) (use half_not_dir in simp)
  have dirs: "os_walk_dirs fuel disk lower_case_body ?p [''UPPER_DIR''] ?w1 = Some (Inr ?w1)"
    using sub half_not_link by simp
  have "os_walk (Suc fuel) disk lower_case_body ?p ?w0 = Some (Inr ?w1)"
    using mixed_isdir body dirs by (simp add: os_walk_Suc mixed_listdirs mixed_listfiles)
  then have "lower_case_mods (Suc fuel) [(''ace'', ''463939057'')] (world0 disk_mixed) = Some (Inr ?w1)"
    by (simp add: lower_case_mods_def world0_def emit_def)
  with half_lookup show ?thesis by simp
qed

lemma lower_disk_lower:
  "\<forall>v \<in> snd ` set [(''ace'', ''463939057'')]. \<forall>(k, n) \<in> set (disk (world0 disk_lower)).
      prefix (A3_WORKSHOP_DIR @ [v]) k \<longrightarrow> lower_path k = k"
  by (simp add: world0_def disk_defs path_defs lower_path_def lower_def lower_char_def)

lemma depth_disk_lower: "depth (disk (world0 disk_lower)) < 12"
  by (simp add: world0_def disk_defs path_defs)

theorem C10_witness:
  "depth (disk (world0 disk_lower)) < 12
   \<and> lower_case_mods 12 [(''ace'', ''463939057'')] (world0 disk_lower)
       = Some (Inr (emit [Log_Converting] (world0 disk_lower)))"
  using C10_lower_case_tree_is_left_alone[OF lower_disk_lower depth_disk_lower] depth_disk_lower
  by simp

section \<open>Properties of the link manager\<close>

lemma symlinks_made_append: "symlinks_made l (es @ fs) = symlinks_made l es + symlinks_made l fs"
  by (induction l es rule: symlinks_made.induct) simp_all

lemma os_symlink_Inr:
  "os_symlink d target link = Inr d' \<Longrightarrow> map_of d link = None \<and> d' = d @ [(link, Symlink target)]"
  by (auto simp: os_symlink_def split: if_splits)

lemma map_of_snoc_other: "p \<noteq> l \<Longrightarrow> map_of (d @ [(l, x)]) p = map_of d p"
  by (simp add: map_add_def split: option.splits)

lemma map_of_snoc_new: "map_of d l = None \<Longrightarrow> map_of (d @ [(l, x)]) l = Some x"
  by (simp add: map_add_def)

lemma map_of_snoc_old: "map_of d p = Some y \<Longrightarrow> map_of (d @ [(l, x)]) p = Some y"
  by (simp add: map_add_def)

lemma map_add_snoc_other: "p \<noteq> l \<Longrightarrow> ([l \<mapsto> x] ++ map_of d) p = map_of d p"
  by (simp add: map_add_def split: option.splits)

lemma map_add_snoc_new: "map_of d l = None \<Longrightarrow> ([l \<mapsto> x] ++ map_of d) l = Some x"
  by (simp add: map_add_def)

lemma real_ne_link: "A3_WORKSHOP_DIR @ [i] \<noteq> A3_MODS_DIR @ [n]"
  by (simp add: A3_MODS_DIR_def A3_WORKSHOP_DIR_def A3_SERVER_DIR_def)

lemma link_ne_real: "A3_MODS_DIR @ [n] \<noteq> A3_WORKSHOP_DIR @ [i]"
  by (simp add: A3_MODS_DIR_def A3_WORKSHOP_DIR_def A3_SERVER_DIR_def)

lemma links_loop_frame:
  "create_mod_symlinks_loop ms w = Inr w' \<Longrightarrow>
     (\<forall>p x. map_of (disk w) p = Some x \<longrightarrow> map_of (disk w') p = Some x)
   \<and> (\<forall>p. p \<notin> (\<lambda>n. A3_MODS_DIR @ [n]) ` fst ` set ms \<longrightarrow> map_of (disk w') p = map_of (disk w) p)
   \<and> (\<forall>l. l \<notin> (\<lambda>n. A3_MODS_DIR @ [n]) ` fst ` set ms \<longrightarrow>
          symlinks_made l (trace w') = symlinks_made l (trace w))"
proof (induction ms arbitrary: w)
  case Nil
  then show ?case by simp
next
  case (Cons m ms)
  obtain n i where m: "m = (n, i)" by (cases m)
  let ?link = "A3_MODS_DIR @ [n]" and ?real = "A3_WORKSHOP_DIR @ [i]"
  consider (missing) "\<not> isdir (disk w) ?real"
    | (linked) "isdir (disk w) ?real" "islink (disk w) ?link"
    | (make) "isdir (disk w) ?real" "\<not> islink (disk w) ?link"
    by blast
  then show ?case
  proof cases
    case missing
    with Cons.prems m have "create_mod_symlinks_loop ms (emit [Print_Mod_missing n ?real] w) = Inr w'"
      by simp
    from Cons.IH[OF this] show ?thesis by (simp add: emit_def symlinks_made_append m)
  next
    case linked
    with Cons.prems m have "create_mod_symlinks_loop ms w = Inr w'" by simp
    from Cons.IH[OF this] show ?thesis by (simp add: m)
  next
    case make
    with Cons.prems m obtain d' where
      sym: "os_symlink (disk w) ?real ?link = Inr d'" and
      rest: "create_mod_symlinks_loop ms
               (emit [Os_symlink ?real ?link, Print_Creating_symlink ?link] (w\<lparr>disk := d'\<rparr>)) = Inr w'"
      by (auto simp: Let_def split: sum.splits)
    from os_symlink_Inr[OF sym] have none: "map_of (disk w) ?link = None"
      and d': "d' = disk w @ [(?link, Symlink ?real)]" by simp_all
    let ?w1 = "emit [Os_symlink ?real ?link, Print_Creating_symlink ?link] (w\<lparr>disk := d'\<rparr>)"
    from Cons.IH[OF rest] have
      ih1: "\<And>p x. map_of (disk ?w1) p = Some x \<Longrightarrow> map_of (disk w') p = Some x" and
      ih2: "\<And>p. p \<notin> (\<lambda>n. A3_MODS_DIR @ [n]) ` fst ` set ms \<Longrightarrow> map_of (disk w') p = map_of (disk ?w1) p" and
      ih3: "\<And>l. l \<notin> (\<lambda>n. A3_MODS_DIR @ [n]) ` fst ` set ms \<Longrightarrow>
              symlinks_made l (trace w') = symlinks_made l (trace ?w1)"
      by blast+
    have dw1: "disk ?w1 = disk w @ [(?link, Symlink ?real)]" by (simp add: emit_def d')
    have tw1: "trace ?w1 = trace w @ [Os_symlink ?real ?link, Print_Creating_symlink ?link]"
      by (simp add: emit_def)
    show ?thesis
    proof (intro conjI allI impI)
      fix p x assume "map_of (disk w) p = Some x"
      then have "map_of (disk ?w1) p = Some x" unfolding dw1 by (rule map_of_snoc_old)
      then show "map_of (disk w') p = Some x" by (rule ih1)
    next
      fix p assume a: "p \<notin> (\<lambda>n. A3_MODS_DIR @ [n]) ` fst ` set (m # ms)"
      then have "p \<noteq> ?link" and b: "p \<notin> (\<lambda>n. A3_MODS_DIR @ [n]) ` fst ` set ms"
        by (auto simp: m)
      then have "map_of (disk ?w1) p = map_of (disk w) p" unfolding dw1 by (simp add: map_add_snoc_other)
      with ih2[OF b] show "map_of (disk w') p = map_of (disk w) p" by simp
    next
      fix l assume a: "l \<notin> (\<lambda>n. A3_MODS_DIR @ [n]) ` fst ` set (m # ms)"
      then have "l \<noteq> ?link" and b: "l \<notin> (\<lambda>n. A3_MODS_DIR @ [n]) ` fst ` set ms"
        by (auto simp: m)
      then have "symlinks_made l (trace ?w1) = symlinks_made l (trace w)"
        unfolding tw1 by (simp add: symlinks_made_append)
      with ih3[OF b] show "symlinks_made l (trace w') = symlinks_made l (trace w)" by simp
    qed
  qed
qed

lemma isdir_cong: "map_of d' p = map_of d p \<Longrightarrow> isdir d' p = isdir d p"
  by (simp add: isdir_def)

lemma islink_cong: "map_of d' p = map_of d p \<Longrightarrow> islink d' p = islink d p"
  by (simp add: islink_def)

lemma links_loop_real:
  "create_mod_symlinks_loop ms w = Inr w' \<Longrightarrow>
     isdir (disk w') (A3_WORKSHOP_DIR @ [i]) = isdir (disk w) (A3_WORKSHOP_DIR @ [i])"
proof -
  assume a: "create_mod_symlinks_loop ms w = Inr w'"
  have "A3_WORKSHOP_DIR @ [i] \<noteq> A3_MODS_DIR @ [n]" for n
    by (rule real_ne_link)
  then have "A3_WORKSHOP_DIR @ [i] \<notin> (\<lambda>n. A3_MODS_DIR @ [n]) ` fst ` set ms"
    by blast
  with links_loop_frame[OF a] have "map_of (disk w') (A3_WORKSHOP_DIR @ [i]) = map_of (disk w) (A3_WORKSHOP_DIR @ [i])"
    by blast
  then show ?thesis by (rule isdir_cong)
qed

lemma links_loop_mod:
  "create_mod_symlinks_loop ms w = Inr w' \<Longrightarrow> distinct (map fst ms) \<Longrightarrow> (mod_name, mod_id) \<in> set ms \<Longrightarrow>
   (if isdir (disk w) (A3_WORKSHOP_DIR @ [mod_id]) \<and> \<not> islink (disk w) (A3_MODS_DIR @ [mod_name])
    then map_of (disk w') (A3_MODS_DIR @ [mod_name]) = Some (Symlink (A3_WORKSHOP_DIR @ [mod_id]))
       \<and> symlinks_made (A3_MODS_DIR @ [mod_name]) (trace w')
           = Suc (symlinks_made (A3_MODS_DIR @ [mod_name]) (trace w))
    else map_of (disk w') (A3_MODS_DIR @ [mod_name]) = map_of (disk w) (A3_MODS_DIR @ [mod_name])
       \<and> symlinks_made (A3_MODS_DIR @ [mod_name]) (trace w')
           = symlinks_made (A3_MODS_DIR @ [mod_name]) (trace w))"
proof (induction ms arbitrary: w)
  case Nil
  then show ?case by simp
next
  case (Cons m ms)
  obtain n i where m: "m = (n, i)" by (cases m)
  let ?link = "A3_MODS_DIR @ [n]" and ?real = "A3_WORKSHOP_DIR @ [i]"
  let ?L = "A3_MODS_DIR @ [mod_name]" and ?R = "A3_WORKSHOP_DIR @ [mod_id]"
  have dist: "distinct (map fst ms)" and n_new: "n \<notin> fst ` set ms"
    using Cons.prems(2) m by auto
  have out: "?link \<notin> (\<lambda>n. A3_MODS_DIR @ [n]) ` fst ` set ms"
    using n_new by auto
  show ?case
  proof (cases "(mod_name, mod_id) = (n, i)")
    case True
    then have eq: "mod_name = n" "mod_id = i" by simp_all
    consider (missing) "\<not> isdir (disk w) ?real"
      | (linked) "isdir (disk w) ?real" "islink (disk w) ?link"
      | (make) "isdir (disk w) ?real" "\<not> islink (disk w) ?link"
      by blast
    then show ?thesis
    proof cases
      case missing
      with Cons.prems(1) m have "create_mod_symlinks_loop ms (emit [Print_Mod_missing n ?real] w) = Inr w'"
        by simp
      from links_loop_frame[OF this] out missing show ?thesis
        by (simp add: eq emit_def symlinks_made_append)
    next
      case linked
      with Cons.prems(1) m have "create_mod_symlinks_loop ms w = Inr w'" by simp
      from links_loop_frame[OF this] out linked show ?thesis by (simp add: eq)
    next
      case make
      with Cons.prems(1) m obtain d' where
        sym: "os_symlink (disk w) ?real ?link = Inr d'" and
        rest: "create_mod_symlinks_loop ms
               (emit [Os_symlink ?real ?link, Print_Creating_symlink ?link] (w\<lparr>disk := d'\<rparr>)) = Inr w'"
        by (auto simp: Let_def split: sum.splits)
      from os_symlink_Inr[OF sym] have none: "map_of (disk w) ?link = None"
        and d': "d' = disk w @ [(?link, Symlink ?real)]" by simp_all
      from links_loop_frame[OF rest] out make none show ?thesis
        by (simp add: eq emit_def symlinks_made_append d' map_add_snoc_new)
    qed
  next
    case False
    with Cons.prems(3) m have mem: "(mod_name, mod_id) \<in> set ms" by auto
    then have "mod_name \<in> fst ` set ms" by force
    with n_new have ne: "mod_name \<noteq> n" by auto
    then have Lne: "?L \<noteq> ?link" by simp
    have Rne: "?R \<noteq> ?link" by (rule real_ne_link)
    consider (missing) "\<not> isdir (disk w) ?real"
      | (linked) "isdir (disk w) ?real" "islink (disk w) ?link"
      | (make) "isdir (disk w) ?real" "\<not> islink (disk w) ?link"
      by blast
    then show ?thesis
    proof cases
      case missing
      with Cons.prems(1) m have "create_mod_symlinks_loop ms (emit [Print_Mod_missing n ?real] w) = Inr w'"
        by simp
      from Cons.IH[OF this dist mem] show ?thesis by (simp add: emit_def symlinks_made_append)
    next
      case linked
      with Cons.prems(1) m have "create_mod_symlinks_loop ms w = Inr w'" by simp
      from Cons.IH[OF this dist mem] show ?thesis .
    next
      case make
      with Cons.prems(1) m obtain d' where
        sym: "os_symlink (disk w) ?real ?link = Inr d'" and
        rest: "create_mod_symlinks_loop ms
               (emit [Os_symlink ?real ?link, Print_Creating_symlink ?link] (w\<lparr>disk := d'\<rparr>)) = Inr w'"
        by (auto simp: Let_def split: sum.splits)
      from os_symlink_Inr[OF sym] have d': "d' = disk w @ [(?link, Symlink ?real)]" by simp
      have mL: "map_of d' ?L = map_of (disk w) ?L" and mR: "map_of d' ?R = map_of (disk w) ?R"
        using Lne Rne by (simp_all add: d' map_add_snoc_other)
      have "isdir d' ?R = isdir (disk w) ?R" "islink d' ?L = islink (disk w) ?L"
        using isdir_cong[OF mR] islink_cong[OF mL] by blast+
      with Cons.IH[OF rest dist mem] \<open>map_of d' ?L = map_of (disk w) ?L\<close> Lne show ?thesis
        by (simp add: emit_def symlinks_made_append)
    qed
  qed
qed

lemma links_loop_again:
  "(\<forall>(n, i) \<in> set ms. isdir (disk w) (A3_WORKSHOP_DIR @ [i]) \<longrightarrow> islink (disk w) (A3_MODS_DIR @ [n])) \<Longrightarrow>
   \<exists>w'. create_mod_symlinks_loop ms w = Inr w' \<and> disk w' = disk w \<and> ext w' = ext w
       \<and> (\<forall>l. symlinks_made l (trace w') = symlinks_made l (trace w))"
proof (induction ms arbitrary: w)
  case Nil
  then show ?case by simp
next
  case (Cons m ms)
  obtain n i where m: "m = (n, i)" by (cases m)
  let ?link = "A3_MODS_DIR @ [n]" and ?real = "A3_WORKSHOP_DIR @ [i]"
  show ?case
  proof (cases "isdir (disk w) ?real")
    case False
    have "\<exists>w'. create_mod_symlinks_loop ms (emit [Print_Mod_missing n ?real] w) = Inr w'
        \<and> disk w' = disk (emit [Print_Mod_missing n ?real] w) \<and> ext w' = ext (emit [Print_Mod_missing n ?real] w)
        \<and> (\<forall>l. symlinks_made l (trace w') = symlinks_made l (trace (emit [Print_Mod_missing n ?real] w)))"
      by (rule Cons.IH) (use Cons.prems in \<open>auto simp: emit_def\<close>)
    with False m show ?thesis by (auto simp: emit_def symlinks_made_append)
  next
    case True
    with Cons.prems m have l: "islink (disk w) ?link" by auto
    have "\<exists>w'. create_mod_symlinks_loop ms w = Inr w' \<and> disk w' = disk w \<and> ext w' = ext w
        \<and> (\<forall>l. symlinks_made l (trace w') = symlinks_made l (trace w))"
      by (rule Cons.IH) (use Cons.prems in auto)
    with True l m show ?thesis by auto
  qed
qed

lemma links_loop_linked:
  "create_mod_symlinks_loop ms w = Inr w' \<Longrightarrow>
   \<forall>(n, i) \<in> set ms. isdir (disk w') (A3_WORKSHOP_DIR @ [i]) \<longrightarrow> islink (disk w') (A3_MODS_DIR @ [n])"
proof (induction ms arbitrary: w)
  case Nil
  then show ?case by simp
next
  case (Cons m ms)
  obtain n i where m: "m = (n, i)" by (cases m)
  let ?link = "A3_MODS_DIR @ [n]" and ?real = "A3_WORKSHOP_DIR @ [i]"
  consider (missing) "\<not> isdir (disk w) ?real"
    | (linked) "isdir (disk w) ?real" "islink (disk w) ?link"
    | (make) "isdir (disk w) ?real" "\<not> islink (disk w) ?link"
    by blast
  then show ?case
  proof cases
    case missing
    with Cons.prems m have r: "create_mod_symlinks_loop ms (emit [Print_Mod_missing n ?real] w) = Inr w'"
      by simp
    from links_loop_real[OF r, of i] missing have "\<not> isdir (disk w') ?real" by (simp add: emit_def)
    with Cons.IH[OF r] show ?thesis by (simp add: m)
  next
    case linked
    with Cons.prems m have r: "create_mod_symlinks_loop ms w = Inr w'" by simp
    from linked(2) obtain t where "map_of (disk w) ?link = Some (Symlink t)"
      by (auto simp: islink_def split: option.splits node.splits)
    with links_loop_frame[OF r] have "map_of (disk w') ?link = Some (Symlink t)" by blast
    then have "islink (disk w') ?link" by (simp add: islink_def)
    with Cons.IH[OF r] show ?thesis by (simp add: m)
  next
    case make
    with Cons.prems m obtain d' where
      sym: "os_symlink (disk w) ?real ?link = Inr d'" and
      rest: "create_mod_symlinks_loop ms
               (emit [Os_symlink ?real ?link, Print_Creating_symlink ?link] (w\<lparr>disk := d'\<rparr>)) = Inr w'"
      by (auto simp: Let_def split: sum.splits)
    from os_symlink_Inr[OF sym] have "map_of d' ?link = Some (Symlink ?real)"
      by (simp add: map_add_snoc_new)
    with links_loop_frame[OF rest] have "map_of (disk w') ?link = Some (Symlink ?real)"
      by (simp add: emit_def)
    then have "islink (disk w') ?link" by (simp add: islink_def)
    with Cons.IH[OF rest] show ?thesis by (simp add: m)
  qed
qed

lemma create_mod_symlinks_Inr:
  "create_mod_symlinks ms w = Inr w1 \<Longrightarrow>
   \<exists>w'. create_mod_symlinks_loop ms (emit [Log_Creating_symlinks] w) = Inr w' \<and> w1 = emit [Print_blank] w'"
  by (auto simp: create_mod_symlinks_def split: sum.splits)

lemma create_mod_symlinks_mod:
  assumes run: "create_mod_symlinks ms w = Inr w1"
      and names: "distinct (map fst ms)"
      and mem: "(mod_name, mod_id) \<in> set ms"
  shows "(if isdir (disk w) (A3_WORKSHOP_DIR @ [mod_id]) \<and> \<not> islink (disk w) (A3_MODS_DIR @ [mod_name])
          then map_of (disk w1) (A3_MODS_DIR @ [mod_name]) = Some (Symlink (A3_WORKSHOP_DIR @ [mod_id]))
             \<and> symlinks_made (A3_MODS_DIR @ [mod_name]) (trace w1)
                 = Suc (symlinks_made (A3_MODS_DIR @ [mod_name]) (trace w))
          else map_of (disk w1) (A3_MODS_DIR @ [mod_name]) = map_of (disk w) (A3_MODS_DIR @ [mod_name])
             \<and> symlinks_made (A3_MODS_DIR @ [mod_name]) (trace w1)
                 = symlinks_made (A3_MODS_DIR @ [mod_name]) (trace w))"
proof -
  from create_mod_symlinks_Inr[OF run] obtain w' where
    loop: "create_mod_symlinks_loop ms (emit [Log_Creating_symlinks] w) = Inr w'"
    and w1: "w1 = emit [Print_blank] w'" by blast
  from links_loop_mod[OF loop names mem] show ?thesis
    by (simp add: w1 emit_def symlinks_made_append)
qed

lemma create_mod_symlinks_again:
  assumes run: "create_mod_symlinks ms w = Inr w1"
  shows "\<exists>w3. create_mod_symlinks ms w1 = Inr w3 \<and> disk w3 = disk w1
            \<and> (\<forall>l. symlinks_made l (trace w3) = symlinks_made l (trace w1))"
proof -
  from create_mod_symlinks_Inr[OF run] obtain w' where
    loop: "create_mod_symlinks_loop ms (emit [Log_Creating_symlinks] w) = Inr w'"
    and w1: "w1 = emit [Print_blank] w'" by blast
  let ?w2 = "emit [Log_Creating_symlinks] w1"
  have "\<forall>(n, i) \<in> set ms. isdir (disk ?w2) (A3_WORKSHOP_DIR @ [i]) \<longrightarrow> islink (disk ?w2) (A3_MODS_DIR @ [n])"
    using links_loop_linked[OF loop] by (simp add: w1 emit_def)
  from links_loop_again[OF this] obtain w'' where
    "create_mod_symlinks_loop ms ?w2 = Inr w''" "disk w'' = disk ?w2"
    "\<forall>l. symlinks_made l (trace w'') = symlinks_made l (trace ?w2)"
    by blast
  then show ?thesis
    by (simp add: create_mod_symlinks_def emit_def symlinks_made_append)
qed

text \<open>
  Claim C8. For a mod of the updated mods (a dict: the names are distinct), a call of the
  link manager that returns makes the link at \<open>A3_MODS_DIR/mod_name\<close> to
  \<open>A3_WORKSHOP_DIR/mod_id\<close>, with one \<open>os.symlink\<close> call, exactly when the target
  is a directory and no link is at the link path; otherwise it leaves the link path as it
  was and makes no call. A second call right after the first returns, changes nothing
  on the disk and makes no call. And on any world where the link path holds a link,
  whatever its target and whatever has become of the content directory, a call leaves the
  link path as it is and makes no \<open>os.symlink\<close> call for it.
\<close>

theorem C8_link_manager:
  fixes w :: "'x world"
  assumes run: "create_mod_symlinks updated_mods w = Inr w1"
      and names: "distinct (map fst updated_mods)"
      and mem: "(mod_name, mod_id) \<in> set updated_mods"
  shows "(if isdir (disk w) (A3_WORKSHOP_DIR @ [mod_id]) \<and> \<not> islink (disk w) (A3_MODS_DIR @ [mod_name])
          then map_of (disk w1) (A3_MODS_DIR @ [mod_name]) = Some (Symlink (A3_WORKSHOP_DIR @ [mod_id]))
             \<and> symlinks_made (A3_MODS_DIR @ [mod_name]) (trace w1)
                 = Suc (symlinks_made (A3_MODS_DIR @ [mod_name]) (trace w))
          else map_of (disk w1) (A3_MODS_DIR @ [mod_name]) = map_of (disk w) (A3_MODS_DIR @ [mod_name])
             \<and> symlinks_made (A3_MODS_DIR @ [mod_name]) (trace w1)
                 = symlinks_made (A3_MODS_DIR @ [mod_name]) (trace w))
       \<and> (\<exists>w3. create_mod_symlinks updated_mods w1 = Inr w3 \<and> disk w3 = disk w1
              \<and> symlinks_made (A3_MODS_DIR @ [mod_name]) (trace w3)
                  = symlinks_made (A3_MODS_DIR @ [mod_name]) (trace w1))
       \<and> (\<forall>(w2 :: 'x world) w3. islink (disk w2) (A3_MODS_DIR @ [mod_name])
              \<and> create_mod_symlinks updated_mods w2 = Inr w3 \<longrightarrow>
                map_of (disk w3) (A3_MODS_DIR @ [mod_name]) = map_of (disk w2) (A3_MODS_DIR @ [mod_name])
              \<and> symlinks_made (A3_MODS_DIR @ [mod_name]) (trace w3)
                  = symlinks_made (A3_MODS_DIR @ [mod_name]) (trace w2))"
proof -
  let ?L = "A3_MODS_DIR @ [mod_name]"
  note A = create_mod_symlinks_mod[OF run names mem]
  from create_mod_symlinks_again[OF run]
  have B: "\<exists>w3. create_mod_symlinks updated_mods w1 = Inr w3 \<and> disk w3 = disk w1
              \<and> symlinks_made ?L (trace w3) = symlinks_made ?L (trace w1)"
    by blast
  have C: "map_of (disk w3) ?L = map_of (disk w2) ?L
         \<and> symlinks_made ?L (trace w3) = symlinks_made ?L (trace w2)"
    if a: "islink (disk w2) ?L \<and> create_mod_symlinks updated_mods w2 = Inr w3" for w2 w3 :: "'x world"
    using create_mod_symlinks_mod[OF conjunct2[OF a] names mem] a by simp
  from A B C show ?thesis by blast
qed

lemma C8_run:
  "create_mod_symlinks [(''ace'', ''463939057'')] (world0 (disk1 5))
   = Inr \<lparr>disk = disk1 5 @ [(A3_MODS_DIR @ [''ace''], Symlink (A3_WORKSHOP_DIR @ [''463939057'']))],
          ext = (),
          trace = [Log_Creating_symlinks,
                   Os_symlink (A3_WORKSHOP_DIR @ [''463939057'']) (A3_MODS_DIR @ [''ace'']),
                   Print_Creating_symlink (A3_MODS_DIR @ [''ace'']), Print_blank]\<rparr>"
proof -
  have l: "map_of (disk1 5) (A3_MODS_DIR @ [''ace'']) = None"
    by (simp add: disk_defs path_defs)
  have p: "isdir (disk1 5) A3_MODS_DIR"
    by (simp add: isdir_def disk_defs path_defs)
  have "os_symlink (disk1 5) (A3_WORKSHOP_DIR @ [''463939057'']) (A3_MODS_DIR @ [''ace''])
      = Inr (disk1 5 @ [(A3_MODS_DIR @ [''ace''], Symlink (A3_WORKSHOP_DIR @ [''463939057'']))])"
    using l p by (simp add: os_symlink_def)
  then show ?thesis
    using l isdir_disk1[of 5]
    by (simp add: create_mod_symlinks_def world0_def emit_def islink_def Let_def)
qed

theorem C8_witness:
  "create_mod_symlinks [(''ace'', ''463939057'')] (world0 (disk1 5))
   = Inr \<lparr>disk = disk1 5 @ [(A3_MODS_DIR @ [''ace''], Symlink (A3_WORKSHOP_DIR @ [''463939057'']))],
          ext = (),
          trace = [Log_Creating_symlinks,
                   Os_symlink (A3_WORKSHOP_DIR @ [''463939057'']) (A3_MODS_DIR @ [''ace'']),
                   Print_Creating_symlink (A3_MODS_DIR @ [''ace'']), Print_blank]\<rparr>
   \<and> symlinks_made (A3_MODS_DIR @ [''ace''])
        [Log_Creating_symlinks,
         Os_symlink (A3_WORKSHOP_DIR @ [''463939057'']) (A3_MODS_DIR @ [''ace'']),
         Print_Creating_symlink (A3_MODS_DIR @ [''ace'']), Print_blank] = 1
   \<and> (\<exists>w3. create_mod_symlinks [(''ace'', ''463939057'')]
              \<lparr>disk = disk1 5 @ [(A3_MODS_DIR @ [''ace''], Symlink (A3_WORKSHOP_DIR @ [''463939057'']))],
               ext = (),
               trace = [Log_Creating_symlinks,
                   Os_symlink (A3_WORKSHOP_DIR @ [''463939057'']) (A3_MODS_DIR @ [''ace'']),
                   Print_Creating_symlink (A3_MODS_DIR @ [''ace'']), Print_blank]\<rparr> = Inr w3
          \<and> disk w3 = disk1 5 @ [(A3_MODS_DIR @ [''ace''], Symlink (A3_WORKSHOP_DIR @ [''463939057'']))])"
proof -
  have d: "distinct (map fst [(''ace'', ''463939057'')])" by simp
  have m: "(''ace'', ''463939057'') \<in> set [(''ace'', ''463939057'')]" by simp
  from C8_link_manager[OF C8_run d m] C8_run show ?thesis by auto
qed

section \<open>Properties of the key propagator\<close>

lemma map_of_fs_put: "map_of (fs_put p n d) k = (if k = p then Some n else map_of d k)"
  by (induction d) auto

lemma below_fs_put: "\<not> prefix base p \<Longrightarrow> below base (fs_put p n d) = below base d"
  by (induction d) (auto simp: below_def)

lemma map_of_below: "prefix base p \<Longrightarrow> map_of (below base d) p = map_of d p"
  by (induction d) (auto simp: below_def)

lemma isdir_below: "prefix base p \<Longrightarrow> isdir (below base d) p = isdir d p"
  by (simp add: isdir_def map_of_below)

lemma islink_below: "prefix base p \<Longrightarrow> islink (below base d) p = islink d p"
  by (simp add: islink_def map_of_below)

lemma prefix_butlast: "k \<noteq> [] \<Longrightarrow> prefix base (butlast k) \<Longrightarrow> prefix base k"
  by (metis append_butlast_last_id prefix_prefix)

lemma scandir_below: "prefix base p \<Longrightarrow> scandir (below base d) p = scandir d p"
proof -
  assume p: "prefix base p"
  have "filter (\<lambda>(k, n). k \<noteq> [] \<and> butlast k = p) (filter (\<lambda>(k, n). prefix base k) d)
      = filter (\<lambda>(k, n). k \<noteq> [] \<and> butlast k = p) d"
    unfolding filter_filter
    by (rule filter_cong) (use p prefix_butlast in auto)
  then show ?thesis by (simp add: scandir_def below_def)
qed

lemma listdirs_below: "prefix base p \<Longrightarrow> listdirs (below base d) p = listdirs d p"
  by (simp add: listdirs_def scandir_below)

lemma listfiles_below: "prefix base p \<Longrightarrow> listfiles (below base d) p = listfiles d p"
  by (simp add: listfiles_def scandir_below)

lemma same_below:
  assumes "below base d = below base d'" and "prefix base p"
  shows "map_of d p = map_of d' p" and "isdir d p = isdir d' p" and "islink d p = islink d' p"
    and "listdirs d p = listdirs d' p" and "listfiles d p = listfiles d' p"
  using assms map_of_below[of base p d] map_of_below[of base p d']
    isdir_below[of base p d] isdir_below[of base p d']
    islink_below[of base p d] islink_below[of base p d']
    listdirs_below[of base p d] listdirs_below[of base p d']
    listfiles_below[of base p d] listfiles_below[of base p d']
  by simp_all

lemma src_not_dest: "\<not> prefix A3_MOD_KEYS_SOURCE_DIRECTORY (A3_MOD_KEYS_DESTINATION_DIRECTORY @ q)"
  by (simp add: path_defs)

lemma key_target_not_src: "\<not> prefix A3_MOD_KEYS_SOURCE_DIRECTORY (key_target d name)"
  using src_not_dest[of "[name]"] src_not_dest[of "[name, name]"] by (simp add: key_target_def)

lemma key_target_inj: "key_target d n = key_target d n' \<Longrightarrow> n = n'"
  by (auto simp: key_target_def split: if_splits)

lemma shutil_copy_Inr:
  assumes "shutil_copy d (root @ [file]) (A3_MOD_KEYS_DESTINATION_DIRECTORY @ [file]) = Inr d'"
  shows "\<exists>c. map_of d (root @ [file]) = Some (File c)
           \<and> d' = fs_put (key_target d file) (File c) d
           \<and> \<not> isdir d (key_target d file)"
  using assms
  by (auto simp: shutil_copy_def key_target_def Let_def isdir_def
      split: option.splits node.splits if_splits)

lemma isdir_fs_put_file: "\<not> isdir d p \<Longrightarrow> isdir (fs_put p (File c) d) q = isdir d q"
  by (simp add: isdir_def map_of_fs_put)

lemma listfiles_entry:
  "file \<in> set (listfiles d root) \<Longrightarrow> \<exists>nd. (root @ [file], nd) \<in> set d \<and> \<not> is_Dir nd"
  by (auto simp: listfiles_def dest!: scandir_mem)

lemma isdir_listed: "isdir d (root @ [name]) \<Longrightarrow> name \<in> set (listdirs d root)"
proof -
  assume "isdir d (root @ [name])"
  then obtain t where "(root @ [name], Dir t) \<in> set d" using isdir_mem by blast
  then have "(name, Dir t) \<in> set (scandir d root)"
    by (force simp: scandir_def)
  then show ?thesis by (force simp: listdirs_def)
qed

lemma file_listed:
  "(k, nd) \<in> set d \<Longrightarrow> \<not> is_Dir nd \<Longrightarrow> k \<noteq> [] \<Longrightarrow> last k \<in> set (listfiles d (butlast k))"
proof -
  assume a: "(k, nd) \<in> set d" "\<not> is_Dir nd" "k \<noteq> []"
  then have "(last k, nd) \<in> set (scandir d (butlast k))"
    by (force simp: scandir_def)
  with a(2) show ?thesis by (force simp: listfiles_def)
qed

lemma copied_emit:
  "n0 \<le> length (trace w) \<Longrightarrow>
   copied n0 (emit es w\<lparr>disk := d'\<rparr>, b) k
     = (copied n0 (w, b') k \<or> Shutil_copy k (A3_MOD_KEYS_DESTINATION_DIRECTORY @ [last k]) \<in> set es)"
  by (simp add: copied_def emit_def)

lemma key_target_same: "(\<forall>p. isdir d p = isdir d0 p) \<Longrightarrow> key_target d name = key_target d0 name"
  by (simp add: key_target_def)

lemma copy_step_inv:
  fixes w :: "'x world"
  assumes inv: "keys_inv n0 d0 K (w, b)"
      and root: "prefix A3_MOD_KEYS_SOURCE_DIRECTORY root"
      and key: "root @ [file] \<in> K"
      and cp: "shutil_copy (disk w) (root @ [file]) (A3_MOD_KEYS_DESTINATION_DIRECTORY @ [file]) = Inr d'"
  shows "keys_inv n0 d0 K
           (emit [Print_Copy file, Shutil_copy (root @ [file]) (A3_MOD_KEYS_DESTINATION_DIRECTORY @ [file])] w
              \<lparr>disk := d'\<rparr>, True)"
proof -
  let ?SRC = A3_MOD_KEYS_SOURCE_DIRECTORY and ?DEST = A3_MOD_KEYS_DESTINATION_DIRECTORY
  let ?k = "root @ [file]"
  let ?w' = "emit [Print_Copy file, Shutil_copy ?k (?DEST @ [file])] w\<lparr>disk := d'\<rparr>"
  from inv have n0: "n0 \<le> length (trace w)"
    and bel: "below ?SRC (disk w) = below ?SRC d0"
    and dirs: "\<forall>p. isdir (disk w) p = isdir d0 p"
    and old: "\<forall>k. copied n0 (w, b) k \<longrightarrow>
            k \<in> K \<and> (\<exists>k' \<in> K. \<exists>c. last k' = last k \<and> map_of d0 k' = Some (File c)
                        \<and> map_of (disk w) (key_target d0 (last k)) = Some (File c))"
    by (simp_all add: keys_inv_def)
  from shutil_copy_Inr[OF cp] obtain c where
    src: "map_of (disk w) ?k = Some (File c)" and
    d': "d' = fs_put (key_target (disk w) file) (File c) (disk w)" and
    nd: "\<not> isdir (disk w) (key_target (disk w) file)" by blast
  have tgt: "key_target (disk w) file = key_target d0 file"
    by (rule key_target_same[OF dirs])
  have pk: "prefix ?SRC ?k" using root by (simp add: prefix_prefix)
  have src0: "map_of d0 ?k = Some (File c)"
    using same_below(1)[OF bel pk] src by simp
  have disk': "disk ?w' = d'" and trace': "trace ?w' = trace w @ [Print_Copy file, Shutil_copy ?k (?DEST @ [file])]"
    by (simp_all add: emit_def)
  have cop: "copied n0 (?w', True) k = (copied n0 (w, b) k \<or> k = ?k)" for k
  proof -
    have "Shutil_copy k (?DEST @ [last k]) \<in> set [Print_Copy file, Shutil_copy ?k (?DEST @ [file])]
          \<longleftrightarrow> k = ?k"
      by auto
    with copied_emit[OF n0, where es = "[Print_Copy file, Shutil_copy ?k (?DEST @ [file])]"
        and d' = d' and b = True and k = k and b' = b]
    show ?thesis by simp
  qed
  have 1: "n0 \<le> length (trace ?w')" using n0 by (simp add: trace')
  have 2: "below ?SRC (disk ?w') = below ?SRC d0"
    unfolding disk' d' using bel key_target_not_src by (simp add: below_fs_put)
  have 3: "\<forall>p. isdir (disk ?w') p = isdir d0 p"
    unfolding disk' d' using dirs nd by (simp add: isdir_fs_put_file)
  have 4: "\<exists>k. copied n0 (?w', True) k" using cop by blast
  have 6: "k \<in> K \<and> (\<exists>k' \<in> K. \<exists>c. last k' = last k \<and> map_of d0 k' = Some (File c)
                        \<and> map_of (disk ?w') (key_target d0 (last k)) = Some (File c))"
    if "copied n0 (?w', True) k" for k
  proof (cases "k = ?k")
    case True
    have "map_of d' (key_target d0 file) = Some (File c)"
      by (simp add: d' tgt map_of_fs_put)
    with src0 have "\<exists>c. last ?k = last k \<and> map_of d0 ?k = Some (File c)
                        \<and> map_of d' (key_target d0 (last k)) = Some (File c)"
      using True by simp
    with key have "\<exists>k' \<in> K. \<exists>c. last k' = last k \<and> map_of d0 k' = Some (File c)
                        \<and> map_of d' (key_target d0 (last k)) = Some (File c)"
      by (rule rev_bexI)
    with True key show ?thesis unfolding disk' by simp
  next
    case False
    with that cop have c0: "copied n0 (w, b) k" by simp
    with old obtain k' c2 where k: "k \<in> K" and k': "k' \<in> K" "last k' = last k"
        "map_of d0 k' = Some (File c2)" "map_of (disk w) (key_target d0 (last k)) = Some (File c2)"
      by blast
    show ?thesis
    proof (cases "key_target d0 (last k) = key_target d0 file")
      case True
      then have "last k = file" by (rule key_target_inj)
      moreover have "map_of d' (key_target d0 (last k)) = Some (File c)"
        by (simp add: d' tgt True map_of_fs_put)
      ultimately have "\<exists>c. last ?k = last k \<and> map_of d0 ?k = Some (File c)
                        \<and> map_of d' (key_target d0 (last k)) = Some (File c)"
        using src0 by simp
      with key have "\<exists>k' \<in> K. \<exists>c. last k' = last k \<and> map_of d0 k' = Some (File c)
                        \<and> map_of d' (key_target d0 (last k)) = Some (File c)"
        by (rule rev_bexI)
      with k show ?thesis unfolding disk' by simp
    next
      case False
      then have "map_of d' (key_target d0 (last k)) = Some (File c2)"
        using k'(4) by (simp add: d' tgt map_of_fs_put)
      with k'(2,3) have "\<exists>c. last k' = last k \<and> map_of d0 k' = Some (File c)
                        \<and> map_of d' (key_target d0 (last k)) = Some (File c)"
        by simp
      with k'(1) have "\<exists>k' \<in> K. \<exists>c. last k' = last k \<and> map_of d0 k' = Some (File c)
                        \<and> map_of d' (key_target d0 (last k)) = Some (File c)"
        by (rule rev_bexI)
      with k show ?thesis unfolding disk' by simp
    qed
  qed
  from 1 2 3 4 6 show ?thesis
    unfolding keys_inv_def by simp
qed

lemma in_tree_iff:
  "in_tree d topdir p \<longleftrightarrow>
     prefix topdir p \<and> (\<forall>i. length topdir \<le> i \<and> i < length p \<longrightarrow> isdir d (take i p))"
  by (auto simp: in_tree_def list_all_iff)

lemma in_tree_refl: "in_tree d topdir topdir"
  by (simp add: in_tree_def)

lemma in_tree_child:
  assumes "in_tree d topdir root" and "isdir d root"
  shows "in_tree d topdir (root @ [name])"
proof -
  have "isdir d (take i (root @ [name]))" if "length topdir \<le> i" "i < length (root @ [name])" for i
  proof (cases "i < length root")
    case True
    with assms(1) that(1) show ?thesis by (simp add: in_tree_iff)
  next
    case False
    with that(2) have "i = length root" by simp
    with assms(2) show ?thesis by simp
  qed
  with assms(1) show ?thesis by (simp add: in_tree_iff prefix_prefix)
qed

lemma in_tree_trans:
  assumes "in_tree d topdir mid" and "in_tree d mid p"
  shows "in_tree d topdir p"
proof -
  from assms have pm: "prefix topdir mid" and mp: "prefix mid p" by (simp_all add: in_tree_iff)
  have "isdir d (take i p)" if "length topdir \<le> i" "i < length p" for i
  proof (cases "i < length mid")
    case True
    from mp obtain r where "p = mid @ r" by (auto simp: prefix_def)
    with True have "take i p = take i mid" by simp
    with assms(1) that(1) True show ?thesis by (simp add: in_tree_iff)
  next
    case False
    with assms(2) that(2) show ?thesis by (simp add: in_tree_iff)
  qed
  with pm mp show ?thesis by (auto simp: in_tree_iff)
qed

lemma key_files_iff:
  "k \<in> set (key_files d topdir) \<longleftrightarrow>
     (\<exists>nd. (k, nd) \<in> set d \<and> \<not> is_Dir nd) \<and> length topdir < length k \<and> in_tree d topdir k
     \<and> endswith (last k) ''.bikey''"
  unfolding key_files_def by force

lemma key_files_split:
  assumes "k \<in> set (key_files d topdir)"
  shows "isdir d topdir \<and> (butlast k = topdir
           \<or> (\<exists>name. isdir d (topdir @ [name]) \<and> k \<in> set (key_files d (topdir @ [name]))))"
proof -
  from assms obtain nd where ent: "(k, nd) \<in> set d" "\<not> is_Dir nd"
    and len: "length topdir < length k" and tree: "in_tree d topdir k"
    and suf: "endswith (last k) ''.bikey''"
    by (auto simp: key_files_iff)
  from tree have pre: "prefix topdir k"
    and dirs: "\<And>i. length topdir \<le> i \<Longrightarrow> i < length k \<Longrightarrow> isdir d (take i k)"
    by (simp_all add: in_tree_iff)
  from pre len obtain name rest where k: "k = topdir @ name # rest"
    by (cases "drop (length topdir) k") (auto simp: prefix_def)
  from dirs[of "length topdir"] len have top: "isdir d topdir" by (simp add: k)
  show ?thesis
  proof (cases "rest = []")
    case True
    with k top show ?thesis by (simp add: butlast_append)
  next
    case False
    have "isdir d (topdir @ [name])"
      using dirs[of "Suc (length topdir)"] False by (simp add: k)
    moreover have "in_tree d (topdir @ [name]) k"
      using dirs by (auto simp: in_tree_iff k)
    moreover have "length (topdir @ [name]) < length k" using False by (simp add: k)
    ultimately have "isdir d (topdir @ [name]) \<and> k \<in> set (key_files d (topdir @ [name]))"
      using ent suf by (auto simp: key_files_iff)
    with top show ?thesis by blast
  qed
qed

lemma key_files_not_dir: "\<not> isdir d topdir \<Longrightarrow> key_files d topdir = []"
  using key_files_split[of _ d topdir] by (cases "key_files d topdir") auto

lemma key_file_of_listing:
  assumes "in_tree d topdir root" and "isdir d root" and "file \<in> set (listfiles d root)"
      and "endswith file ''.bikey''"
  shows "root @ [file] \<in> set (key_files d topdir)"
proof -
  from listfiles_entry[OF assms(3)] obtain nd where "(root @ [file], nd) \<in> set d" "\<not> is_Dir nd"
    by blast
  moreover have "length topdir < length (root @ [file])"
    using assms(1) by (auto simp: in_tree_iff dest: prefix_length_le)
  moreover have "in_tree d topdir (root @ [file])" by (rule in_tree_child[OF assms(1,2)])
  ultimately show ?thesis using assms(4) by (auto simp: key_files_iff)
qed

lemma key_files_sub:
  assumes "in_tree d topdir mid" and "k \<in> set (key_files d mid)"
  shows "k \<in> set (key_files d topdir)"
proof -
  from assms(2) have "in_tree d mid k" "length mid < length k" by (simp_all add: key_files_iff)
  moreover from this assms(1) have "in_tree d topdir k" by (blast intro: in_tree_trans)
  moreover have "length topdir \<le> length mid" using assms(1) by (auto simp: in_tree_iff dest: prefix_length_le)
  ultimately show ?thesis using assms(2) by (auto simp: key_files_iff)
qed

lemma copied_step:
  "n0 \<le> length (trace w) \<Longrightarrow>
   copied n0 (emit [Print_Copy file, Shutil_copy (root @ [file]) (A3_MOD_KEYS_DESTINATION_DIRECTORY @ [file])] w
               \<lparr>disk := d'\<rparr>, b') k
     = (copied n0 (w, b) k \<or> k = root @ [file])"
  by (auto simp: copied_def emit_def)

lemma copy_loop_inv:
  fixes s :: "'x world \<times> bool"
  assumes "copy_key_body_loop root files s = Inr s'"
      and "keys_inv n0 d0 K s"
      and "prefix A3_MOD_KEYS_SOURCE_DIRECTORY root"
      and "\<forall>file \<in> set files. endswith file ''.bikey'' \<longrightarrow> root @ [file] \<in> K"
  shows "keys_inv n0 d0 K s' \<and> (\<forall>k. copied n0 s k \<longrightarrow> copied n0 s' k)
       \<and> (\<forall>file \<in> set files. endswith file ''.bikey'' \<longrightarrow> copied n0 s' (root @ [file]))"
  using assms
proof (induction files arbitrary: s)
  case Nil
  then show ?case by simp
next
  case (Cons f fs)
  obtain w b where s: "s = (w, b)" by (cases s)
  show ?case
  proof (cases "endswith f ''.bikey''")
    case False
    with Cons.prems(1) have "copy_key_body_loop root fs s = Inr s'" by (simp add: s)
    from Cons.IH[OF this Cons.prems(2,3)] Cons.prems(4) False show ?thesis by simp
  next
    case True
    let ?ev = "[Print_Copy f, Shutil_copy (root @ [f]) (A3_MOD_KEYS_DESTINATION_DIRECTORY @ [f])]"
    from Cons.prems(1) True obtain d' where
      cp: "shutil_copy (disk w) (root @ [f]) (A3_MOD_KEYS_DESTINATION_DIRECTORY @ [f]) = Inr d'"
      and rest: "copy_key_body_loop root fs (emit ?ev w\<lparr>disk := d'\<rparr>, True) = Inr s'"
      by (auto simp: s Let_def emit_def split: sum.splits)
    let ?s1 = "(emit ?ev w\<lparr>disk := d'\<rparr>, True)"
    have key: "root @ [f] \<in> K" using Cons.prems(4) True by simp
    have inv1: "keys_inv n0 d0 K ?s1"
      by (rule copy_step_inv[OF Cons.prems(2)[unfolded s] Cons.prems(3) key cp])
    have n0: "n0 \<le> length (trace w)" using Cons.prems(2) by (simp add: keys_inv_def s)
    have step: "copied n0 ?s1 k = (copied n0 (w, b) k \<or> k = root @ [f])" for k
      by (rule copied_step[OF n0])
    have "\<forall>file \<in> set fs. endswith file ''.bikey'' \<longrightarrow> root @ [file] \<in> K"
      using Cons.prems(4) by simp
    from Cons.IH[OF rest inv1 Cons.prems(3) this]
    have a: "keys_inv n0 d0 K s'" and m: "\<And>k. copied n0 ?s1 k \<Longrightarrow> copied n0 s' k"
      and f: "\<forall>file \<in> set fs. endswith file ''.bikey'' \<longrightarrow> copied n0 s' (root @ [file])"
      by blast+
    have "copied n0 s' (root @ [f])" using m step by blast
    moreover have "\<forall>k. copied n0 s k \<longrightarrow> copied n0 s' k" using m step s by blast
    ultimately show ?thesis using a f by simp
  qed
qed

lemma islink_not_isdir: "islink d p \<Longrightarrow> \<not> isdir d p"
  by (auto simp: islink_def isdir_def split: option.splits node.splits)

lemma keys_body_inv:
  fixes s :: "'x world \<times> bool"
  assumes top: "prefix A3_MOD_KEYS_SOURCE_DIRECTORY top1" "set (key_files d0 top1) \<subseteq> K"
      and q: "in_tree d0 top1 root" "isdir d0 root"
      and inv: "keys_inv n0 d0 K s"
      and run: "copy_key_body root dirs (listfiles (disk (fst s)) root) s = Inr s'"
  shows "keys_inv n0 d0 K s' \<and> (\<forall>k. copied n0 s k \<longrightarrow> copied n0 s' k)
       \<and> (\<forall>file \<in> set (listfiles d0 root). endswith file ''.bikey'' \<longrightarrow> copied n0 s' (root @ [file]))"
proof -
  have pr: "prefix A3_MOD_KEYS_SOURCE_DIRECTORY root"
    using top(1) q(1) by (auto simp: in_tree_iff)
  from inv have bel: "below A3_MOD_KEYS_SOURCE_DIRECTORY (disk (fst s)) = below A3_MOD_KEYS_SOURCE_DIRECTORY d0"
    by (simp add: keys_inv_def)
  have lf: "listfiles (disk (fst s)) root = listfiles d0 root"
    by (rule same_below(5)[OF bel pr])
  have "\<forall>file \<in> set (listfiles d0 root). endswith file ''.bikey'' \<longrightarrow> root @ [file] \<in> K"
    using key_file_of_listing[OF q] top(2) by blast
  moreover have "copy_key_body_loop root (listfiles d0 root) s = Inr s'"
    using run by (simp add: copy_key_body_def lf)
  ultimately show ?thesis using copy_loop_inv[OF _ inv pr] by blast
qed

lemma keys_walk_inv_both:
  fixes X :: "path set"
  assumes top: "prefix A3_MOD_KEYS_SOURCE_DIRECTORY top1" "set (key_files d0 top1) \<subseteq> K"
  shows "(\<forall>topdir (s :: 'x world \<times> bool).
            (isdir (disk (fst s)) topdir \<longrightarrow> in_tree d0 top1 topdir \<and> isdir d0 topdir) \<longrightarrow>
            keys_inv n0 d0 K s \<and> (\<forall>k \<in> X. copied n0 s k) \<longrightarrow>
            (case os_walk fuel (\<lambda>s. disk (fst s)) copy_key_body topdir s of
               None \<Rightarrow> True | Some (Inl e) \<Rightarrow> True
             | Some (Inr s') \<Rightarrow> keys_inv n0 d0 K s' \<and> (\<forall>k \<in> X. copied n0 s' k)))
       \<and> (\<forall>topdir dirs (s :: 'x world \<times> bool).
            in_tree d0 top1 topdir \<and> isdir d0 topdir \<longrightarrow>
            keys_inv n0 d0 K s \<and> (\<forall>k \<in> X. copied n0 s k) \<longrightarrow>
            (case os_walk_dirs fuel (\<lambda>s. disk (fst s)) copy_key_body topdir dirs s of
               None \<Rightarrow> True | Some (Inl e) \<Rightarrow> True
             | Some (Inr s') \<Rightarrow> keys_inv n0 d0 K s' \<and> (\<forall>k \<in> X. copied n0 s' k)))"
proof (rule os_walk_invariant)
  fix root and s :: "'x world \<times> bool"
  assume q: "in_tree d0 top1 root \<and> isdir d0 root"
    and p: "keys_inv n0 d0 K s \<and> (\<forall>k \<in> X. copied n0 s k)"
  show "case copy_key_body root (listdirs (disk (fst s)) root) (listfiles (disk (fst s)) root) s of
          Inl e \<Rightarrow> True | Inr s' \<Rightarrow> keys_inv n0 d0 K s' \<and> (\<forall>k \<in> X. copied n0 s' k)"
  proof (cases "copy_key_body root (listdirs (disk (fst s)) root) (listfiles (disk (fst s)) root) s")
    case (Inl e)
    then show ?thesis by simp
  next
    case (Inr s')
    from keys_body_inv[OF top conjunct1[OF q] conjunct2[OF q] conjunct1[OF p] Inr] p
    show ?thesis using Inr by auto
  qed
next
  fix root name and s :: "'x world \<times> bool"
  assume q: "in_tree d0 top1 root \<and> isdir d0 root"
    and p: "keys_inv n0 d0 K s \<and> (\<forall>k \<in> X. copied n0 s k)"
    and d: "isdir (disk (fst s)) (root @ [name])"
  from p d have "isdir d0 (root @ [name])" by (simp add: keys_inv_def)
  with q show "in_tree d0 top1 (root @ [name]) \<and> isdir d0 (root @ [name])"
    by (simp add: in_tree_child)
qed

lemma keys_walk_inv:
  fixes s :: "'x world \<times> bool"
  assumes top: "prefix A3_MOD_KEYS_SOURCE_DIRECTORY top1" "set (key_files d0 top1) \<subseteq> K"
      and tree: "in_tree d0 top1 topdir"
      and inv: "keys_inv n0 d0 K s" and X: "\<forall>k \<in> X. copied n0 s k"
      and walk: "os_walk fuel (\<lambda>s. disk (fst s)) copy_key_body topdir s = Some (Inr s')"
  shows "keys_inv n0 d0 K s' \<and> (\<forall>k \<in> X. copied n0 s' k)"
proof -
  have "isdir (disk (fst s)) topdir \<longrightarrow> in_tree d0 top1 topdir \<and> isdir d0 topdir"
    using tree inv by (simp add: keys_inv_def)
  with keys_walk_inv_both[OF top, of n0 X fuel] inv X
  have "case os_walk fuel (\<lambda>s. disk (fst s)) copy_key_body topdir s of
               None \<Rightarrow> True | Some (Inl e) \<Rightarrow> True
             | Some (Inr s') \<Rightarrow> keys_inv n0 d0 K s' \<and> (\<forall>k \<in> X. copied n0 s' k)"
    by blast
  with walk show ?thesis by simp
qed

lemma keys_walk_dirs_inv:
  fixes s :: "'x world \<times> bool"
  assumes top: "prefix A3_MOD_KEYS_SOURCE_DIRECTORY top1" "set (key_files d0 top1) \<subseteq> K"
      and tree: "in_tree d0 top1 topdir" "isdir d0 topdir"
      and inv: "keys_inv n0 d0 K s" and X: "\<forall>k \<in> X. copied n0 s k"
      and walk: "os_walk_dirs fuel (\<lambda>s. disk (fst s)) copy_key_body topdir dirs s = Some (Inr s')"
  shows "keys_inv n0 d0 K s' \<and> (\<forall>k \<in> X. copied n0 s' k)"
proof -
  from keys_walk_inv_both[OF top, of n0 X fuel] tree inv X
  have "case os_walk_dirs fuel (\<lambda>s. disk (fst s)) copy_key_body topdir dirs s of
               None \<Rightarrow> True | Some (Inl e) \<Rightarrow> True
             | Some (Inr s') \<Rightarrow> keys_inv n0 d0 K s' \<and> (\<forall>k \<in> X. copied n0 s' k)"
    by blast
  with walk show ?thesis by simp
qed

lemma keys_dirs_visits:
  fixes s :: "'x world \<times> bool"
  assumes top: "prefix A3_MOD_KEYS_SOURCE_DIRECTORY top1" "set (key_files d0 top1) \<subseteq> K"
      and S: "\<And>topdir (s :: 'x world \<times> bool) s'.
                os_walk n (\<lambda>s. disk (fst s)) copy_key_body topdir s = Some (Inr s') \<Longrightarrow>
                keys_inv n0 d0 K s \<Longrightarrow> in_tree d0 top1 topdir \<Longrightarrow>
                \<forall>k \<in> set (key_files d0 topdir). copied n0 s' k"
      and tree: "in_tree d0 top1 topdir" "isdir d0 topdir"
  shows "os_walk_dirs n (\<lambda>s. disk (fst s)) copy_key_body topdir dirs s = Some (Inr s') \<Longrightarrow>
         keys_inv n0 d0 K s \<Longrightarrow>
         \<forall>name \<in> set dirs. \<forall>k \<in> set (key_files d0 (topdir @ [name])). copied n0 s' k"
proof (induction dirs arbitrary: s)
  case Nil
  then show ?case by simp
next
  case (Cons name dirs)
  have dirs0: "\<And>p. isdir (disk (fst s)) p = isdir d0 p"
    using Cons.prems(2) by (simp add: keys_inv_def)
  show ?case
  proof (cases "islink (disk (fst s)) (topdir @ [name])")
    case True
    then have "\<not> isdir d0 (topdir @ [name])" using islink_not_isdir dirs0 by blast
    then have e: "key_files d0 (topdir @ [name]) = []" by (rule key_files_not_dir)
    from True Cons.prems(1)
    have "os_walk_dirs n (\<lambda>s. disk (fst s)) copy_key_body topdir dirs s = Some (Inr s')" by simp
    from Cons.IH[OF this Cons.prems(2)] e show ?thesis by simp
  next
    case False
    with Cons.prems(1) obtain s1 where
      w1: "os_walk n (\<lambda>s. disk (fst s)) copy_key_body (topdir @ [name]) s = Some (Inr s1)" and
      r: "os_walk_dirs n (\<lambda>s. disk (fst s)) copy_key_body topdir dirs s1 = Some (Inr s')"
      by (auto split: option.splits sum.splits)
    have t1: "in_tree d0 top1 (topdir @ [name])" by (rule in_tree_child[OF tree])
    have here: "\<forall>k \<in> set (key_files d0 (topdir @ [name])). copied n0 s1 k"
      by (rule S[OF w1 Cons.prems(2) t1])
    have "\<forall>k \<in> {}. copied n0 s k" by simp
    from keys_walk_inv[OF top t1 Cons.prems(2) this w1] have inv1: "keys_inv n0 d0 K s1" by simp
    from keys_walk_dirs_inv[OF top tree inv1 here r]
    have "\<forall>k \<in> set (key_files d0 (topdir @ [name])). copied n0 s' k" by simp
    with Cons.IH[OF r inv1] show ?thesis by simp
  qed
qed

lemma keys_walk_visits:
  fixes s :: "'x world \<times> bool"
  assumes top: "prefix A3_MOD_KEYS_SOURCE_DIRECTORY top1" "set (key_files d0 top1) \<subseteq> K"
  shows "os_walk fuel (\<lambda>s. disk (fst s)) copy_key_body topdir s = Some (Inr s') \<Longrightarrow>
         keys_inv n0 d0 K s \<Longrightarrow> in_tree d0 top1 topdir \<Longrightarrow>
         \<forall>k \<in> set (key_files d0 topdir). copied n0 s' k"
proof (induction fuel arbitrary: topdir s s')
  case 0
  then have "\<not> isdir (disk (fst s)) topdir" by (simp add: os_walk_0 split: if_splits)
  with 0(2) have "\<not> isdir d0 topdir" by (simp add: keys_inv_def)
  then show ?case by (simp add: key_files_not_dir)
next
  case (Suc n)
  have dirs0: "\<And>p. isdir (disk (fst s)) p = isdir d0 p"
    using Suc.prems(2) by (simp add: keys_inv_def)
  show ?case
  proof (cases "isdir d0 topdir")
    case False
    then show ?thesis by (simp add: key_files_not_dir)
  next
    case True
    then have here: "isdir (disk (fst s)) topdir" by (simp add: dirs0)
    from Suc.prems(1) here obtain s1 where
      b: "copy_key_body topdir (listdirs (disk (fst s)) topdir) (listfiles (disk (fst s)) topdir) s = Inr s1"
      and r: "os_walk_dirs n (\<lambda>s. disk (fst s)) copy_key_body topdir (listdirs (disk (fst s)) topdir) s1
               = Some (Inr s')"
      by (auto simp: os_walk_Suc split: sum.splits)
    from keys_body_inv[OF top Suc.prems(3) True Suc.prems(2) b]
    have inv1: "keys_inv n0 d0 K s1"
      and files: "\<forall>file \<in> set (listfiles d0 topdir). endswith file ''.bikey'' \<longrightarrow> copied n0 s1 (topdir @ [file])"
      by blast+
    have "\<forall>k \<in> {k. copied n0 s1 k}. copied n0 s1 k" by simp
    from keys_walk_dirs_inv[OF top Suc.prems(3) True inv1 this r]
    have mono: "\<And>k. copied n0 s1 k \<Longrightarrow> copied n0 s' k" by simp
    have children: "\<forall>name \<in> set (listdirs (disk (fst s)) topdir).
                      \<forall>k \<in> set (key_files d0 (topdir @ [name])). copied n0 s' k"
      by (rule keys_dirs_visits[OF top _ Suc.prems(3) True r inv1]) (rule Suc.IH)
    have pr: "prefix A3_MOD_KEYS_SOURCE_DIRECTORY topdir"
      using top(1) Suc.prems(3) by (auto simp: in_tree_iff)
    have bel: "below A3_MOD_KEYS_SOURCE_DIRECTORY (disk (fst s)) = below A3_MOD_KEYS_SOURCE_DIRECTORY d0"
      using Suc.prems(2) by (simp add: keys_inv_def)
    have ld: "listdirs (disk (fst s)) topdir = listdirs d0 topdir"
      by (rule same_below(4)[OF bel pr])
    show ?thesis
    proof
      fix k assume k: "k \<in> set (key_files d0 topdir)"
      from key_files_split[OF k] consider (direct) "butlast k = topdir"
        | (deeper) name where "isdir d0 (topdir @ [name])" "k \<in> set (key_files d0 (topdir @ [name]))"
        by blast
      then show "copied n0 s' k"
      proof cases
        case direct
        from k obtain nd where ent: "(k, nd) \<in> set d0" "\<not> is_Dir nd" and len: "length topdir < length k"
          and suf: "endswith (last k) ''.bikey''"
          by (auto simp: key_files_iff)
        from len have ne: "k \<noteq> []" by auto
        from file_listed[OF ent ne] direct have "last k \<in> set (listfiles d0 topdir)" by simp
        with files suf have "copied n0 s1 (topdir @ [last k])" by blast
        moreover have "topdir @ [last k] = k" using direct ne append_butlast_last_id by metis
        ultimately show ?thesis using mono by simp
      next
        case deeper
        from isdir_listed[OF deeper(1)] have "name \<in> set (listdirs (disk (fst s)) topdir)"
          by (simp add: ld)
        with children deeper(2) show ?thesis by blast
      qed
    qed
  qed
qed

lemma copy_loop_trace:
  "copy_key_body_loop root files s = Inr s' \<Longrightarrow> \<exists>es. trace (fst s') = trace (fst s) @ es"
proof (induction files arbitrary: s)
  case Nil
  then show ?case by simp
next
  case (Cons f fs)
  obtain w b where s: "s = (w, b)" by (cases s)
  show ?case
  proof (cases "endswith f ''.bikey''")
    case False
    with Cons.prems have "copy_key_body_loop root fs s = Inr s'" by (simp add: s)
    from Cons.IH[OF this] show ?thesis .
  next
    case True
    let ?ev = "[Print_Copy f, Shutil_copy (root @ [f]) (A3_MOD_KEYS_DESTINATION_DIRECTORY @ [f])]"
    from Cons.prems True obtain d' where
      rest: "copy_key_body_loop root fs (emit ?ev w\<lparr>disk := d'\<rparr>, True) = Inr s'"
      by (auto simp: s Let_def emit_def split: sum.splits)
    from Cons.IH[OF rest] obtain es where "trace (fst s') = (trace w @ ?ev) @ es"
      by (auto simp: emit_def)
    then show ?thesis by (simp add: s)
  qed
qed

lemma keys_walk_trace_both:
  "(\<forall>topdir (s :: 'x world \<times> bool).
      (isdir (disk (fst s)) topdir \<longrightarrow> True) \<longrightarrow> (\<exists>es. trace (fst s) = tr0 @ es) \<longrightarrow>
      (case os_walk fuel (\<lambda>s. disk (fst s)) copy_key_body topdir s of
         None \<Rightarrow> True | Some (Inl e) \<Rightarrow> True | Some (Inr s') \<Rightarrow> \<exists>es. trace (fst s') = tr0 @ es))
   \<and> (\<forall>topdir dirs (s :: 'x world \<times> bool).
      True \<longrightarrow> (\<exists>es. trace (fst s) = tr0 @ es) \<longrightarrow>
      (case os_walk_dirs fuel (\<lambda>s. disk (fst s)) copy_key_body topdir dirs s of
         None \<Rightarrow> True | Some (Inl e) \<Rightarrow> True | Some (Inr s') \<Rightarrow> \<exists>es. trace (fst s') = tr0 @ es))"
proof (rule os_walk_invariant)
  fix root and s :: "'x world \<times> bool"
  assume p: "\<exists>es. trace (fst s) = tr0 @ es"
  show "case copy_key_body root (listdirs (disk (fst s)) root) (listfiles (disk (fst s)) root) s of
          Inl e \<Rightarrow> True | Inr s' \<Rightarrow> \<exists>es. trace (fst s') = tr0 @ es"
  proof (cases "copy_key_body root (listdirs (disk (fst s)) root) (listfiles (disk (fst s)) root) s")
    case (Inl e)
    then show ?thesis by simp
  next
    case (Inr s')
    then have "copy_key_body_loop root (listfiles (disk (fst s)) root) s = Inr s'"
      by (simp add: copy_key_body_def)
    from copy_loop_trace[OF this] p Inr show ?thesis by auto
  qed
qed simp

lemma keys_walk_trace:
  fixes s :: "'x world \<times> bool"
  assumes "os_walk fuel (\<lambda>s. disk (fst s)) copy_key_body topdir s = Some (Inr s')"
      and "\<exists>es. trace (fst s) = tr0 @ es"
  shows "\<exists>es. trace (fst s') = tr0 @ es"
proof -
  from keys_walk_trace_both[of tr0 fuel] assms(2)
  have "case os_walk fuel (\<lambda>s. disk (fst s)) copy_key_body topdir s of
         None \<Rightarrow> True | Some (Inl e) \<Rightarrow> True | Some (Inr s') \<Rightarrow> \<exists>es. trace (fst s') = tr0 @ es"
    by blast
  with assms(1) show ?thesis by simp
qed

lemma src_prefix: "prefix A3_MOD_KEYS_SOURCE_DIRECTORY (A3_MOD_KEYS_SOURCE_DIRECTORY @ [v])"
  by simp

lemma keys_loop:
  fixes s :: "'x world \<times> bool"
  assumes "copy_key_files_loop fuel vs s = Some (Inr s')"
      and "keys_inv n0 d0 K s"
      and "\<forall>v \<in> set vs. set (key_files d0 (A3_MOD_KEYS_SOURCE_DIRECTORY @ [v])) \<subseteq> K"
      and "\<forall>k \<in> X. copied n0 s k"
      and "\<exists>es. trace (fst s) = tr0 @ es"
  shows "keys_inv n0 d0 K s' \<and> (\<forall>k \<in> X. copied n0 s' k)
       \<and> (\<forall>v \<in> set vs. \<forall>k \<in> set (key_files d0 (A3_MOD_KEYS_SOURCE_DIRECTORY @ [v])). copied n0 s' k)
       \<and> (\<exists>es. trace (fst s') = tr0 @ es)"
  using assms
proof (induction vs arbitrary: s X)
  case Nil
  then show ?case by simp
next
  case (Cons v vs)
  let ?top = "A3_MOD_KEYS_SOURCE_DIRECTORY @ [v]"
  from Cons.prems(1) obtain s1 where
    w1: "os_walk fuel (\<lambda>s. disk (fst s)) copy_key_body ?top s = Some (Inr s1)" and
    r: "copy_key_files_loop fuel vs s1 = Some (Inr s')"
    by (auto simp: Let_def split: option.splits sum.splits)
  have sub: "set (key_files d0 ?top) \<subseteq> K" using Cons.prems(3) by simp
  from keys_walk_inv[OF src_prefix sub in_tree_refl Cons.prems(2,4) w1]
  have inv1: "keys_inv n0 d0 K s1" and X1: "\<forall>k \<in> X. copied n0 s1 k" by simp_all
  from keys_walk_visits[OF src_prefix sub w1 Cons.prems(2) in_tree_refl]
  have here: "\<forall>k \<in> set (key_files d0 ?top). copied n0 s1 k" .
  have tr1: "\<exists>es. trace (fst s1) = tr0 @ es" by (rule keys_walk_trace[OF w1 Cons.prems(5)])
  have "\<forall>k \<in> X \<union> set (key_files d0 ?top). copied n0 s1 k" using X1 here by blast
  moreover have "\<forall>v \<in> set vs. set (key_files d0 (A3_MOD_KEYS_SOURCE_DIRECTORY @ [v])) \<subseteq> K"
    using Cons.prems(3) by simp
  ultimately have "keys_inv n0 d0 K s' \<and> (\<forall>k \<in> X \<union> set (key_files d0 ?top). copied n0 s' k)
       \<and> (\<forall>v \<in> set vs. \<forall>k \<in> set (key_files d0 (A3_MOD_KEYS_SOURCE_DIRECTORY @ [v])). copied n0 s' k)
       \<and> (\<exists>es. trace (fst s') = tr0 @ es)"
    using Cons.IH[OF r inv1 _ _ tr1] by blast
  then show ?case by auto
qed

lemma keys_walk_total:
  fixes s :: "'x world \<times> bool"
  assumes top: "prefix A3_MOD_KEYS_SOURCE_DIRECTORY top1" "set (key_files d0 top1) \<subseteq> K"
      and inv: "keys_inv n0 d0 K s" and fuel: "depth d0 < fuel"
  shows "os_walk fuel (\<lambda>s. disk (fst s)) copy_key_body top1 s \<noteq> None"
proof -
  have "(\<forall>topdir (s :: 'x world \<times> bool).
            (isdir (disk (fst s)) topdir \<longrightarrow> in_tree d0 top1 topdir \<and> isdir d0 topdir) \<longrightarrow>
            keys_inv n0 d0 K s \<longrightarrow> depth d0 < fuel + length topdir \<longrightarrow>
            (case os_walk fuel (\<lambda>s. disk (fst s)) copy_key_body topdir s of
               None \<Rightarrow> False | Some (Inl e) \<Rightarrow> True | Some (Inr s') \<Rightarrow> keys_inv n0 d0 K s'))
       \<and> (\<forall>topdir dirs (s :: 'x world \<times> bool).
            in_tree d0 top1 topdir \<and> isdir d0 topdir \<longrightarrow>
            keys_inv n0 d0 K s \<longrightarrow> depth d0 \<le> fuel + length topdir \<longrightarrow>
            (case os_walk_dirs fuel (\<lambda>s. disk (fst s)) copy_key_body topdir dirs s of
               None \<Rightarrow> False | Some (Inl e) \<Rightarrow> True | Some (Inr s') \<Rightarrow> keys_inv n0 d0 K s'))"
  proof (rule os_walk_enough_fuel)
    fix root and s :: "'x world \<times> bool"
    assume q: "in_tree d0 top1 root \<and> isdir d0 root" and p: "keys_inv n0 d0 K s"
    show "case copy_key_body root (listdirs (disk (fst s)) root) (listfiles (disk (fst s)) root) s of
            Inl e \<Rightarrow> True | Inr s' \<Rightarrow> keys_inv n0 d0 K s'"
    proof (cases "copy_key_body root (listdirs (disk (fst s)) root) (listfiles (disk (fst s)) root) s")
      case (Inl e)
      then show ?thesis by simp
    next
      case (Inr s')
      from keys_body_inv[OF top conjunct1[OF q] conjunct2[OF q] p Inr] Inr show ?thesis by simp
    qed
  next
    fix root name and s :: "'x world \<times> bool"
    assume q: "in_tree d0 top1 root \<and> isdir d0 root" and p: "keys_inv n0 d0 K s"
      and d: "isdir (disk (fst s)) (root @ [name])"
    from p d have "isdir d0 (root @ [name])" by (simp add: keys_inv_def)
    with q show "in_tree d0 top1 (root @ [name]) \<and> isdir d0 (root @ [name])"
      by (simp add: in_tree_child)
  next
    fix root and s :: "'x world \<times> bool"
    assume "in_tree d0 top1 root \<and> isdir d0 root"
    then show "length root \<le> depth d0" by (simp add: isdir_depth)
  qed
  moreover have "isdir (disk (fst s)) top1 \<longrightarrow> in_tree d0 top1 top1 \<and> isdir d0 top1"
    using inv by (simp add: keys_inv_def in_tree_refl)
  moreover have "depth d0 < fuel + length top1" using fuel by simp
  ultimately have "case os_walk fuel (\<lambda>s. disk (fst s)) copy_key_body top1 s of
               None \<Rightarrow> False | Some (Inl e) \<Rightarrow> True | Some (Inr s') \<Rightarrow> keys_inv n0 d0 K s'"
    using inv by blast
  then show ?thesis by (auto split: option.splits)
qed

lemma keys_loop_total:
  fixes s :: "'x world \<times> bool"
  assumes "keys_inv n0 d0 K s"
      and "\<forall>v \<in> set vs. set (key_files d0 (A3_MOD_KEYS_SOURCE_DIRECTORY @ [v])) \<subseteq> K"
      and "depth d0 < fuel"
  shows "copy_key_files_loop fuel vs s \<noteq> None"
  using assms(1,2)
proof (induction vs arbitrary: s)
  case Nil
  then show ?case by simp
next
  case (Cons v vs)
  let ?top = "A3_MOD_KEYS_SOURCE_DIRECTORY @ [v]"
  have sub: "set (key_files d0 ?top) \<subseteq> K" using Cons.prems(2) by simp
  from keys_walk_total[OF src_prefix sub Cons.prems(1) assms(3)]
  obtain res where w1: "os_walk fuel (\<lambda>s. disk (fst s)) copy_key_body ?top s = Some res" by blast
  show ?case
  proof (cases res)
    case (Inl e)
    with w1 show ?thesis by (simp add: Let_def)
  next
    case (Inr s1)
    have "\<forall>k \<in> {}. copied n0 s k" by simp
    from keys_walk_inv[OF src_prefix sub in_tree_refl Cons.prems(1) this w1[unfolded Inr]]
    have "keys_inv n0 d0 K s1" by simp
    from Cons.IH[OF this] Cons.prems(2) w1 Inr show ?thesis by (simp add: Let_def)
  qed
qed

lemma keys_inv_start:
  "keys_inv (Suc (length (trace w))) (disk w) K (emit [Log_Start_copy] w, False)"
  by (simp add: keys_inv_def copied_def emit_def)

lemma all_key_files_sub:
  "\<forall>v \<in> set (map snd updated_mods).
     set (key_files d (A3_MOD_KEYS_SOURCE_DIRECTORY @ [v])) \<subseteq> set (all_key_files d updated_mods)"
  by (auto simp: all_key_files_def)

lemma all_key_files_mem:
  "k \<in> set (all_key_files d updated_mods) \<Longrightarrow>
   \<exists>v \<in> set (map snd updated_mods). k \<in> set (key_files d (A3_MOD_KEYS_SOURCE_DIRECTORY @ [v]))"
  by (auto simp: all_key_files_def)

text \<open>
  Claim C9. With fuel beyond the depth of the disk the key propagator returns (a result or
  an exception of \<open>shutil.copy\<close>, which the method does not catch). When it
  returns a world, the last thing it printed is the "nothing to copy" report exactly when
  the trees of the updated mods hold no key file, and the disk is then untouched.
  Otherwise the last thing printed is the success report, every key file was passed to
  \<open>shutil.copy\<close> with its name in the destination directory, and the path written
  for that name holds the bytes of a key file of that name (the last one copied).
\<close>

theorem C9_key_propagator:
  fixes w :: "'x world"
  shows "(depth (disk w) < fuel \<longrightarrow> copy_key_files fuel updated_mods w \<noteq> None)
       \<and> (\<forall>w'. copy_key_files fuel updated_mods w = Some (Inr w') \<longrightarrow>
            (\<exists>es. trace w' = trace w @ es
               \<and> (if all_key_files (disk w) updated_mods = []
                  then last es = Print_No_keys \<and> disk w' = disk w
                  else last es = Print_Keys_copied
                     \<and> (\<forall>k \<in> set (all_key_files (disk w) updated_mods).
                          Shutil_copy k (A3_MOD_KEYS_DESTINATION_DIRECTORY @ [last k]) \<in> set es
                        \<and> (\<exists>k' \<in> set (all_key_files (disk w) updated_mods). \<exists>c.
                              last k' = last k \<and> map_of (disk w) k' = Some (File c)
                            \<and> map_of (disk w') (key_target (disk w) (last k)) = Some (File c))))))"
proof (intro conjI impI allI)
  let ?K = "set (all_key_files (disk w) updated_mods)"
  let ?n0 = "Suc (length (trace w))"
  let ?s0 = "(emit [Log_Start_copy] w, False)"
  assume "depth (disk w) < fuel"
  from keys_loop_total[OF keys_inv_start all_key_files_sub this]
  have "copy_key_files_loop fuel (map snd updated_mods) ?s0 \<noteq> None" .
  then show "copy_key_files fuel updated_mods w \<noteq> None"
    by (auto simp: copy_key_files_def split: option.splits sum.splits)
next
  fix w' :: "'x world"
  let ?K = "set (all_key_files (disk w) updated_mods)"
  let ?n0 = "Suc (length (trace w))"
  let ?s0 = "(emit [Log_Start_copy] w, False)"
  let ?tr0 = "trace w @ [Log_Start_copy]"
  assume run: "copy_key_files fuel updated_mods w = Some (Inr w')"
  then obtain w1 b where
    loop: "copy_key_files_loop fuel (map snd updated_mods) ?s0 = Some (Inr (w1, b))" and
    w': "w' = emit [if b then Print_Keys_copied else Print_No_keys] w1"
    by (auto simp: copy_key_files_def split: option.splits sum.splits if_splits)
  have "\<forall>k \<in> {}. copied ?n0 ?s0 k" by simp
  moreover have "\<exists>es. trace (fst ?s0) = ?tr0 @ es" by (simp add: emit_def)
  ultimately have
    inv: "keys_inv ?n0 (disk w) ?K (w1, b)" and
    all: "\<forall>v \<in> set (map snd updated_mods).
            \<forall>k \<in> set (key_files (disk w) (A3_MOD_KEYS_SOURCE_DIRECTORY @ [v])). copied ?n0 (w1, b) k" and
    tr: "\<exists>es. trace (fst (w1, b)) = ?tr0 @ es"
    using keys_loop[OF loop keys_inv_start all_key_files_sub, of "{}" ?tr0] by blast+
  from tr obtain es1 where tr1: "trace w1 = trace w @ Log_Start_copy # es1" by auto
  then have drop: "drop ?n0 (trace w1) = es1" by simp
  let ?es = "Log_Start_copy # es1 @ [if b then Print_Keys_copied else Print_No_keys]"
  have trw: "trace w' = trace w @ ?es" by (simp add: w' emit_def tr1)
  have cop: "copied ?n0 (w1, b) k \<longleftrightarrow>
               Shutil_copy k (A3_MOD_KEYS_DESTINATION_DIRECTORY @ [last k]) \<in> set es1" for k
    by (simp add: copied_def drop)
  from inv have b_iff: "b = (\<exists>k. copied ?n0 (w1, b) k)"
    and untouched: "b \<or> disk w1 = disk w"
    and each: "\<And>k. copied ?n0 (w1, b) k \<Longrightarrow>
            k \<in> ?K \<and> (\<exists>k' \<in> ?K. \<exists>c. last k' = last k \<and> map_of (disk w) k' = Some (File c)
                        \<and> map_of (disk w1) (key_target (disk w) (last k)) = Some (File c))"
    by (simp_all add: keys_inv_def)
  have allK: "\<And>k. k \<in> ?K \<Longrightarrow> copied ?n0 (w1, b) k"
    using all all_key_files_mem by blast
  have dw: "disk w' = disk w1" by (simp add: w' emit_def)
  have "if all_key_files (disk w) updated_mods = []
        then last ?es = Print_No_keys \<and> disk w' = disk w
        else last ?es = Print_Keys_copied
           \<and> (\<forall>k \<in> ?K. Shutil_copy k (A3_MOD_KEYS_DESTINATION_DIRECTORY @ [last k]) \<in> set ?es
                \<and> (\<exists>k' \<in> ?K. \<exists>c. last k' = last k \<and> map_of (disk w) k' = Some (File c)
                      \<and> map_of (disk w') (key_target (disk w) (last k)) = Some (File c)))"
  proof (cases "all_key_files (disk w) updated_mods = []")
    case True
    then have "\<not> b" using b_iff each by auto
    with untouched True show ?thesis by (simp add: dw)
  next
    case False
    then obtain k0 where "k0 \<in> ?K" by (cases "all_key_files (disk w) updated_mods") auto
    then have b: "b" using allK b_iff by blast
    have "Shutil_copy k (A3_MOD_KEYS_DESTINATION_DIRECTORY @ [last k]) \<in> set ?es
          \<and> (\<exists>k' \<in> ?K. \<exists>c. last k' = last k \<and> map_of (disk w) k' = Some (File c)
                \<and> map_of (disk w') (key_target (disk w) (last k)) = Some (File c))"
      if "k \<in> ?K" for k
      using allK[OF that] each[of k] cop[of k] by (simp add: dw)
    with False b show ?thesis by simp
  qed
  with trw show "\<exists>es. trace w' = trace w @ es
               \<and> (if all_key_files (disk w) updated_mods = []
                  then last es = Print_No_keys \<and> disk w' = disk w
                  else last es = Print_Keys_copied
                     \<and> (\<forall>k \<in> set (all_key_files (disk w) updated_mods).
                          Shutil_copy k (A3_MOD_KEYS_DESTINATION_DIRECTORY @ [last k]) \<in> set es
                        \<and> (\<exists>k' \<in> set (all_key_files (disk w) updated_mods). \<exists>c.
                              last k' = last k \<and> map_of (disk w) k' = Some (File c)
                            \<and> map_of (disk w') (key_target (disk w) (last k)) = Some (File c))))"
    by blast
qed

lemmas keys_defs = disk_keys_def disk1_def base_disk_def

lemma keys_isdir_mod: "isdir disk_keys (A3_MOD_KEYS_SOURCE_DIRECTORY @ [''463939057''])"
  by (simp add: isdir_def keys_defs path_defs)

lemma keys_listdirs_mod: "listdirs disk_keys (A3_MOD_KEYS_SOURCE_DIRECTORY @ [''463939057'']) = [''keys'']"
  by (simp add: listdirs_def scandir_def keys_defs path_defs)

lemma keys_listfiles_mod: "listfiles disk_keys (A3_MOD_KEYS_SOURCE_DIRECTORY @ [''463939057'']) = []"
  by (simp add: listfiles_def scandir_def keys_defs path_defs)

lemma keys_isdir_keys: "isdir disk_keys (A3_MOD_KEYS_SOURCE_DIRECTORY @ [''463939057'', ''keys''])"
  by (simp add: isdir_def keys_defs path_defs)

lemma keys_islink_keys: "\<not> islink disk_keys (A3_MOD_KEYS_SOURCE_DIRECTORY @ [''463939057'', ''keys''])"
  by (simp add: islink_def keys_defs path_defs)

lemma keys_listdirs_keys:
  "listdirs disk_keys (A3_MOD_KEYS_SOURCE_DIRECTORY @ [''463939057'', ''keys'']) = []"
  by (simp add: listdirs_def scandir_def keys_defs path_defs)

lemma keys_listfiles_keys:
  "listfiles disk_keys (A3_MOD_KEYS_SOURCE_DIRECTORY @ [''463939057'', ''keys''])
     = [''ace.bikey'', ''readme.txt'']"
  by (simp add: listfiles_def scandir_def keys_defs path_defs)

lemma keys_copy:
  "shutil_copy disk_keys (A3_MOD_KEYS_SOURCE_DIRECTORY @ [''463939057'', ''keys'', ''ace.bikey''])
     (A3_MOD_KEYS_DESTINATION_DIRECTORY @ [''ace.bikey''])
   = Inr (disk_keys @ [(A3_MOD_KEYS_DESTINATION_DIRECTORY @ [''ace.bikey''], File ''KEY'')])"
  by (simp add: shutil_copy_def isdir_def Let_def keys_defs path_defs)

lemma keys_suffix: "endswith ''ace.bikey'' ''.bikey''" "\<not> endswith ''readme.txt'' ''.bikey''"
  by (simp_all add: endswith_def)

lemma keys_all:
  "all_key_files disk_keys [(''ace'', ''463939057'')]
     = [A3_MOD_KEYS_SOURCE_DIRECTORY @ [''463939057'', ''keys'', ''ace.bikey'']]"
  by (simp add: all_key_files_def key_files_def in_tree_def isdir_def endswith_def keys_defs path_defs)

lemma keys_depth: "depth (disk (world0 disk_keys)) < 12"
  by (simp add: world0_def keys_defs path_defs)

lemma keys_run_gen:
  "copy_key_files (Suc (Suc fuel)) [(''ace'', ''463939057'')] (world0 disk_keys)
   = Some (Inr \<lparr>disk = disk_keys @ [(A3_MOD_KEYS_DESTINATION_DIRECTORY @ [''ace.bikey''], File ''KEY'')],
               ext = (),
               trace = [Log_Start_copy, Print_Copy ''ace.bikey'',
                        Shutil_copy (A3_MOD_KEYS_SOURCE_DIRECTORY @ [''463939057'', ''keys'', ''ace.bikey''])
                                    (A3_MOD_KEYS_DESTINATION_DIRECTORY @ [''ace.bikey'']),
                        Print_Keys_copied]\<rparr>)"
proof -
  let ?p = "A3_MOD_KEYS_SOURCE_DIRECTORY @ [''463939057'']"
  let ?w0 = "\<lparr>disk = disk_keys, ext = (), trace = [Log_Start_copy]\<rparr>"
  let ?w1 = "\<lparr>disk = disk_keys @ [(A3_MOD_KEYS_DESTINATION_DIRECTORY @ [''ace.bikey''], File ''KEY'')],
               ext = (),
               trace = [Log_Start_copy, Print_Copy ''ace.bikey'',
                        Shutil_copy (A3_MOD_KEYS_SOURCE_DIRECTORY @ [''463939057'', ''keys'', ''ace.bikey''])
                                    (A3_MOD_KEYS_DESTINATION_DIRECTORY @ [''ace.bikey''])]\<rparr>"
  have body: "copy_key_body (?p @ [''keys'']) [] [''ace.bikey'', ''readme.txt''] (?w0, False)
              = Inr (?w1, True)"
    using keys_copy by (simp add: copy_key_body_def keys_suffix emit_def Let_def)
  have sub: "os_walk (Suc fuel) (\<lambda>s. disk (fst s)) copy_key_body (?p @ [''keys'']) (?w0, False)
              = Some (Inr (?w1, True))"
    using keys_isdir_keys body keys_listdirs_keys keys_listfiles_keys
    by (simp add: os_walk_Suc)
  have dirs: "os_walk_dirs (Suc fuel) (\<lambda>s. disk (fst s)) copy_key_body ?p [''keys''] (?w0, False)
              = Some (Inr (?w1, True))"
    using sub keys_islink_keys by simp
  have "os_walk (Suc (Suc fuel)) (\<lambda>s. disk (fst s)) copy_key_body ?p (?w0, False)
          = Some (Inr (?w1, True))"
    using keys_isdir_mod dirs keys_listdirs_mod keys_listfiles_mod
    by (simp add: os_walk_Suc copy_key_body_def)
  then show ?thesis
    by (simp add: copy_key_files_def world0_def emit_def)
qed

lemma keys_run:
  "copy_key_files 12 [(''ace'', ''463939057'')] (world0 disk_keys)
   = Some (Inr \<lparr>disk = disk_keys @ [(A3_MOD_KEYS_DESTINATION_DIRECTORY @ [''ace.bikey''], File ''KEY'')],
               ext = (),
               trace = [Log_Start_copy, Print_Copy ''ace.bikey'',
                        Shutil_copy (A3_MOD_KEYS_SOURCE_DIRECTORY @ [''463939057'', ''keys'', ''ace.bikey''])
                                    (A3_MOD_KEYS_DESTINATION_DIRECTORY @ [''ace.bikey'']),
                        Print_Keys_copied]\<rparr>)"
  using keys_run_gen[of 10] by simp

theorem C9_witness:
  "depth (disk (world0 disk_keys)) < 12
   \<and> copy_key_files 12 [(''ace'', ''463939057'')] (world0 disk_keys)
       = Some (Inr \<lparr>disk = disk_keys @ [(A3_MOD_KEYS_DESTINATION_DIRECTORY @ [''ace.bikey''], File ''KEY'')],
               ext = (),
               trace = [Log_Start_copy, Print_Copy ''ace.bikey'',
                        Shutil_copy (A3_MOD_KEYS_SOURCE_DIRECTORY @ [''463939057'', ''keys'', ''ace.bikey''])
                                    (A3_MOD_KEYS_DESTINATION_DIRECTORY @ [''ace.bikey'']),
                        Print_Keys_copied]\<rparr>)
   \<and> all_key_files disk_keys [(''ace'', ''463939057'')]
       = [A3_MOD_KEYS_SOURCE_DIRECTORY @ [''463939057'', ''keys'', ''ace.bikey'']]
   \<and> (\<exists>c. map_of disk_keys (A3_MOD_KEYS_SOURCE_DIRECTORY @ [''463939057'', ''keys'', ''ace.bikey''])
             = Some (File c)
          \<and> map_of (disk_keys @ [(A3_MOD_KEYS_DESTINATION_DIRECTORY @ [''ace.bikey''], File ''KEY'')])
               (key_target disk_keys ''ace.bikey'') = Some (File c))"
proof -
  from C9_key_propagator[of "world0 disk_keys" 12 "[(''ace'', ''463939057'')]"] keys_run
  have "\<exists>es. trace \<lparr>disk = disk_keys @ [(A3_MOD_KEYS_DESTINATION_DIRECTORY @ [''ace.bikey''], File ''KEY'')],
               ext = (),
               trace = [Log_Start_copy, Print_Copy ''ace.bikey'',
                        Shutil_copy (A3_MOD_KEYS_SOURCE_DIRECTORY @ [''463939057'', ''keys'', ''ace.bikey''])
                                    (A3_MOD_KEYS_DESTINATION_DIRECTORY @ [''ace.bikey'']),
                        Print_Keys_copied]\<rparr> = trace (world0 disk_keys) @ es
          \<and> (\<exists>c. map_of disk_keys (A3_MOD_KEYS_SOURCE_DIRECTORY @ [''463939057'', ''keys'', ''ace.bikey''])
               = Some (File c)
            \<and> map_of (disk_keys @ [(A3_MOD_KEYS_DESTINATION_DIRECTORY @ [''ace.bikey''], File ''KEY'')])
                 (key_target disk_keys ''ace.bikey'') = Some (File c))"
    by (simp add: keys_all world0_def)
  with keys_depth keys_run keys_all show ?thesis by blast
qed

end
